theory Spec2Isabelle
  imports Main "HOL-Library.Sublist"
begin

section \<open>The remote deployment script \<^verbatim>\<open>scripts/remote-deploy.py\<close>\<close>

text \<open>
  The script opens one SSH session, runs a fixed list of shell commands over it and
  prints what happens. Everything it does is input and output, so the model threads an
  explicit world through the code: the world records, in order, every call the script
  makes on the SSH client and every write to the standard output. What the remote side
  answers is not decided by the script; it is a parameter of the model (the environment),
  one answer for every call.

  Python strings are modelled as \<^typ>\<open>string\<close>. A character with the top bit set
  stands for a character outside ASCII.
\<close>

subsection \<open>Exceptions\<close>

text \<open>
  The script distinguishes two classes of exception: \<^verbatim>\<open>UnicodeEncodeError\<close>, caught
  around the printing of an output line, and every other \<^verbatim>\<open>Exception\<close>, caught in
  \<^verbatim>\<open>main\<close>. An exception carries its class and the text \<^verbatim>\<open>str(e)\<close>.
  Asynchronous interrupts (\<^verbatim>\<open>KeyboardInterrupt\<close>) are outside the model.
\<close>

datatype exn_class = UnicodeEncodeError | OtherException

datatype exn = Raised (cls: exn_class) (message: string)

subsection \<open>The environment\<close>

text \<open>
  One remote process, as \<^verbatim>\<open>exec_command\<close> hands it to the script:
  \<^item> \<open>exec_raises\<close>: the exception \<^verbatim>\<open>exec_command\<close> itself raises, if any;
  \<^item> \<open>readline\<close>: the result of the \<open>i\<close>-th call of \<^verbatim>\<open>stdout.readline()\<close>, a line,
    the empty string at the end of the stream, or an exception (the channel's timeout,
    a line that is not UTF-8). The stream is a function of the call's index, so a remote
    process that never closes its output is an environment like any other;
  \<^item> \<open>stderr_text\<close>: the result of \<^verbatim>\<open>stderr.read().decode('utf-8', errors='replace')\<close>,
    the decoded text (decoding with \<^verbatim>\<open>errors='replace'\<close> is total) or the exception
    the read raises;
  \<^item> \<open>exit_status\<close>: what \<^verbatim>\<open>recv_exit_status()\<close> returns; \<open>None\<close> when the remote
    process never exits, so that the call (which has no timeout) never returns.
\<close>

record process =
  exec_raises :: "exn option"
  readline :: "nat \<Rightarrow> exn + string"
  stderr_text :: "exn + string"
  exit_status :: "int option"

text \<open>
  The environment of one run:
  \<^item> \<open>connect_raises\<close>: the exception \<^verbatim>\<open>ssh.connect\<close> raises, if any;
  \<^item> \<open>exec_command\<close>: the remote process started by the \<open>k\<close>-th call of
    \<^verbatim>\<open>exec_command\<close> (counted from 0), given the command and the timeout;
  \<^item> \<open>stdout_encodes\<close>: the characters outside ASCII that the encoding of
    \<^verbatim>\<open>sys.stdout\<close> can represent (ASCII itself is taken to be representable in every
    output encoding);
  \<^item> \<open>encode_error\<close>: the text of the \<^verbatim>\<open>UnicodeEncodeError\<close> that printing a
    string raises.
\<close>

record env =
  connect_raises :: "exn option"
  exec_command :: "nat \<Rightarrow> string \<Rightarrow> nat \<Rightarrow> process"
  stdout_encodes :: "char \<Rightarrow> bool"
  encode_error :: "string \<Rightarrow> string"

subsection \<open>The world: what the script has done so far\<close>

text \<open>Which statement of the script wrote a piece of text to the standard output.\<close>

datatype source = Banner | Announce | Stdout | StdoutLossy | Stderr | Warn | Report

datatype event =
    Print source string
  | Connect
  | ExecCommand string nat
  | Readline "exn + string"
  | StderrRead "exn + string"
  | RecvExitStatus int
  | Close

datatype session = Fresh | Connected | Closed

record world =
  trace :: "event list"
  ssh :: session
  calls :: nat

definition start :: world where
  "start = \<lparr>trace = [], ssh = Fresh, calls = 0\<rparr>"

definition emit :: "event \<Rightarrow> world \<Rightarrow> world" where
  "emit e w = w\<lparr>trace := trace w @ [e]\<rparr>"

subsection \<open>Printing\<close>

text \<open>
  \<^verbatim>\<open>print(s, end=ending)\<close> encodes the whole text before it writes any of it, so a
  print either appends its text to the output or raises and writes nothing.

  \<open>print_value\<close> is \<^verbatim>\<open>print\<close>: it raises \<^verbatim>\<open>UnicodeEncodeError\<close> when the output
  encoding cannot represent the text. It prints every text that holds a value the script
  does not choose: a line or the error text of the remote host, the command that is
  announced, the message of an exception. \<open>print_text\<close> is the print that succeeds; it
  stands for \<^verbatim>\<open>print\<close> only where the text is ASCII whatever the run, which is proved
  of each such text below (lemmas \<open>print_value_encodable\<close>, \<open>header_encodable\<close>,
  \<open>footer_encodable\<close>, \<open>warning_encodable\<close>).
\<close>

definition print_text :: "source \<Rightarrow> string \<Rightarrow> string \<Rightarrow> world \<Rightarrow> world" where
  "print_text src s ending w = emit (Print src (s @ ending)) w"

definition encodable :: "env \<Rightarrow> string \<Rightarrow> bool" where
  "encodable env s = list_all (\<lambda>c. \<not> digit7 c \<or> stdout_encodes env c) s"

definition print_value :: "env \<Rightarrow> source \<Rightarrow> string \<Rightarrow> string \<Rightarrow> world \<Rightarrow> exn + world" where
  "print_value env src s ending w =
     (if encodable env s then Inr (print_text src s ending w)
      else Inl (Raised UnicodeEncodeError (encode_error env s)))"

text \<open>\<^verbatim>\<open>line.encode('ascii', 'replace').decode()\<close>: every character outside ASCII
  becomes a question mark.\<close>

definition ascii_replace :: "string \<Rightarrow> string" where
  "ascii_replace s = map (\<lambda>c. if digit7 c then CHR ''?'' else c) s"

text \<open>\<^verbatim>\<open>str(n)\<close> for an integer.\<close>

fun digits :: "nat \<Rightarrow> string" where
  "digits n =
     (if n < 10 then [''0123456789'' ! n]
      else digits (n div 10) @ [''0123456789'' ! (n mod 10)])"

declare digits.simps [simp del]

definition str_int :: "int \<Rightarrow> string" where
  "str_int i = (if i < 0 then CHR ''-'' # digits (nat (- i)) else digits (nat i))"

text \<open>\<^verbatim>\<open>sub in s\<close> for strings: \<open>sub\<close> occurs in \<open>s\<close> as a contiguous piece.\<close>

fun str_contains :: "string \<Rightarrow> string \<Rightarrow> bool" where
  "str_contains sub [] = (sub = [])"
| "str_contains sub (c # cs) = (prefix sub (c # cs) \<or> str_contains sub cs)"

subsection \<open>\<^verbatim>\<open>run_command\<close>\<close>

text \<open>
  The loop of lines 22 to 29: read a line; stop at the empty string; print the line, and
  when that raises \<^verbatim>\<open>UnicodeEncodeError\<close> print its lossy form instead. The loop has no
  bound of its own, so the model is a partial function: \<open>None\<close> is a loop that never
  ends. An exception of \<^verbatim>\<open>readline\<close>, or of the second print, leaves the loop.
\<close>

definition print_line :: "env \<Rightarrow> string \<Rightarrow> world \<Rightarrow> exn + world" where
  "print_line env line w =
     (case print_value env Stdout line [] w of
        Inr w' \<Rightarrow> Inr w'
      | Inl e \<Rightarrow>
          if cls e = UnicodeEncodeError
          then print_value env StdoutLossy (ascii_replace line) [] w
          else Inl e)"

partial_function (option) stream_output ::
  "env \<Rightarrow> (nat \<Rightarrow> exn + string) \<Rightarrow> nat \<Rightarrow> world \<Rightarrow> ((exn + unit) \<times> world) option" where
  "stream_output env rd i w =
     (case rd i of
        Inl e \<Rightarrow> Some (Inl e, emit (Readline (Inl e)) w)
      | Inr line \<Rightarrow>
          if line = [] then Some (Inr (), emit (Readline (Inr line)) w)
          else (case print_line env line (emit (Readline (Inr line)) w) of
                  Inl e \<Rightarrow> Some (Inl e, emit (Readline (Inr line)) w)
                | Inr w' \<Rightarrow> stream_output env rd (Suc i) w'))"

text \<open>
  Lines 32 to 37: read and decode the error stream and print it when it is not empty;
  any exception raised on the way (by the read, or by the print) is dropped.
\<close>

definition check_stderr :: "env \<Rightarrow> process \<Rightarrow> world \<Rightarrow> world" where
  "check_stderr env p w =
     (case stderr_text p of
        Inl e \<Rightarrow> emit (StderrRead (Inl e)) w
      | Inr err \<Rightarrow>
          let w1 = emit (StderrRead (Inr err)) w in
          if err \<noteq> [] then
            (case print_value env Stderr (''STDERR: '' @ err) ''\<newline>'' w1 of
               Inl e \<Rightarrow> w1
             | Inr w2 \<Rightarrow> w2)
          else w1)"

text \<open>
  \<^verbatim>\<open>run_command\<close>: the announcement of line 18, which raises when the command cannot
  be represented in the output encoding, before anything is executed; then the call of
  \<^verbatim>\<open>exec_command\<close>, the two streams and the exit status.
\<close>

definition run_command :: "env \<Rightarrow> string \<Rightarrow> nat \<Rightarrow> world \<Rightarrow> ((exn + int) \<times> world) option" where
  "run_command env command timeout w =
     (case print_value env Announce (''\<newline>>>> '' @ command) ''\<newline>'' w of
        Inl e \<Rightarrow> Some (Inl e, w)
      | Inr w1 \<Rightarrow>
          (let p = exec_command env (calls w1) command timeout;
               w2 = emit (ExecCommand command timeout) (w1\<lparr>calls := Suc (calls w1)\<rparr>)
           in case exec_raises p of
                Some e \<Rightarrow> Some (Inl e, w2)
              | None \<Rightarrow>
                  (case stream_output env (readline p) 0 w2 of
                     None \<Rightarrow> None
                   | Some (Inl e, w3) \<Rightarrow> Some (Inl e, w3)
                   | Some (Inr u, w3) \<Rightarrow>
                       let w4 = check_stderr env p w3 in
                       (case exit_status p of
                          None \<Rightarrow> None
                        | Some status \<Rightarrow>
                            Some (Inr status, emit (RecvExitStatus status) w4)))))"

subsection \<open>\<^verbatim>\<open>main\<close>\<close>

definition HOST :: string where
  "HOST = ''66.135.29.248''"

definition commands :: "string list" where
  "commands =
     [''docker system prune -af --volumes || true'',
      ''cd /opt/trueticket && git pull origin main'',
      ''mkdir -p /opt/trueticket/data'',
      ''cat > /opt/trueticket/.env << 'ENVEOF'\<newline>NODE_ENV=production\<newline>DATABASE_URL=file:/app/data/prod.db\<newline>JWT_SECRET=test-secret-change-in-production-$(openssl rand -hex 16)\<newline>BLOCKCHAIN_NETWORK=polygon\<newline>NEXT_PUBLIC_STRIPE_PUBLISHABLE_KEY=pk_test_placeholder\<newline>ENVEOF'',
      ''cd /opt/trueticket && docker-compose build --no-cache'',
      ''cd /opt/trueticket && docker-compose up -d'',
      ''sleep 15'',
      ''docker ps'',
      ''curl -s http://localhost:3000/api/health || echo 'Health check pending...'' @ [CHR 0x27]]"

text \<open>Lines 89 to 92: the loop over the commands. An exception of \<^verbatim>\<open>run_command\<close> leaves
  the loop; an exit status never does.\<close>

fun for_commands :: "env \<Rightarrow> string list \<Rightarrow> world \<Rightarrow> ((exn + unit) \<times> world) option" where
  "for_commands env [] w = Some (Inr (), w)"
| "for_commands env (cmd # rest) w =
     (case run_command env cmd 300 w of
        None \<Rightarrow> None
      | Some (Inl e, w1) \<Rightarrow> Some (Inl e, w1)
      | Some (Inr status, w1) \<Rightarrow>
          for_commands env rest
            (if status \<noteq> 0 \<and> \<not> str_contains ''curl'' cmd
             then print_text Warn (''\<newline>Warning: Command exited with status '' @ str_int status) ''\<newline>'' w1
             else w1))"

text \<open>
  How \<^verbatim>\<open>main\<close> ends: by returning, by \<^verbatim>\<open>sys.exit\<close>, or with an exception that
  nothing catches. The interpreter turns the first into exit code 0, the second into the
  argument of \<^verbatim>\<open>sys.exit\<close>, and the third into a traceback on the standard error
  and exit code 1.
\<close>

datatype outcome = Returned | SystemExit int | Uncaught exn

fun exit_code :: "outcome \<Rightarrow> int" where
  "exit_code Returned = 0"
| "exit_code (SystemExit n) = n"
| "exit_code (Uncaught e) = 1"

text \<open>Modelled from the spec: \<^verbatim>\<open>close\<close> of the SSH client (paramiko, not part of the
  repository). It releases the connection; it is idempotent and safe on a session that
  never connected.\<close>

fun close :: "session \<Rightarrow> session" where
  "close Connected = Closed"
| "close Fresh = Fresh"
| "close Closed = Closed"

definition ssh_close :: "world \<Rightarrow> world" where
  "ssh_close w = emit Close (w\<lparr>ssh := close (ssh w)\<rparr>)"

definition print_header :: "world \<Rightarrow> world" where
  "print_header w =
     print_text Banner (''\<newline>Connecting to '' @ HOST @ ''...'') ''\<newline>''
       (print_text Banner (replicate 50 CHR ''='') ''\<newline>''
         (print_text Banner ''TrueTicket Remote Deployment'' ''\<newline>''
           (print_text Banner (replicate 50 CHR ''='') ''\<newline>'' w)))"

definition print_footer :: "world \<Rightarrow> world" where
  "print_footer w =
     print_text Banner ''\<newline>Note: SSL certificate provisioning may take a few minutes.'' ''\<newline>''
       (print_text Banner ''  https://www.trueticket.me'' ''\<newline>''
         (print_text Banner ''  https://trueticket.me'' ''\<newline>''
           (print_text Banner ''\<newline>Your site should be accessible at:'' ''\<newline>''
             (print_text Banner (replicate 50 CHR ''='') ''\<newline>''
               (print_text Banner ''Deployment Complete!'' ''\<newline>''
                 (print_text Banner (''\<newline>'' @ replicate 50 CHR ''='') ''\<newline>'' w))))))"

text \<open>The body of the \<^verbatim>\<open>try\<close> (lines 52 to 100), for a list of commands.\<close>

definition try_body :: "string list \<Rightarrow> env \<Rightarrow> world \<Rightarrow> ((exn + unit) \<times> world) option" where
  "try_body cmds env w =
     (case connect_raises env of
        Some e \<Rightarrow> Some (Inl e, emit Connect w)
      | None \<Rightarrow>
          (case for_commands env cmds
                  (print_text Banner ''Connected successfully!\<newline>'' ''\<newline>''
                     (emit Connect w\<lparr>ssh := Connected\<rparr>)) of
             None \<Rightarrow> None
           | Some (Inl e, w1) \<Rightarrow> Some (Inl e, w1)
           | Some (Inr u, w1) \<Rightarrow> Some (Inr (), print_footer w1)))"

text \<open>
  The handler of lines 102 to 104: it prints the message of the exception and leaves by
  \<^verbatim>\<open>sys.exit(1)\<close>. When the message cannot be represented in the output encoding the
  print raises inside the handler: nothing is printed, \<^verbatim>\<open>sys.exit\<close> is not reached
  and the new exception leaves \<^verbatim>\<open>main\<close> uncaught.
\<close>

definition except_handler :: "env \<Rightarrow> exn \<Rightarrow> world \<Rightarrow> outcome \<times> world" where
  "except_handler env e w =
     (case print_value env Report (''Error: '' @ message e) ''\<newline>'' w of
        Inl e' \<Rightarrow> (Uncaught e', w)
      | Inr w' \<Rightarrow> (SystemExit 1, w'))"

text \<open>\<^verbatim>\<open>main\<close> with the list of commands as a parameter: the \<^verbatim>\<open>try\<close>, the handler
  and the \<^verbatim>\<open>finally\<close> of line 105, which runs however the rest ends.\<close>

definition main_on :: "string list \<Rightarrow> env \<Rightarrow> (outcome \<times> world) option" where
  "main_on cmds env =
     (case try_body cmds env (print_header start) of
        None \<Rightarrow> None
      | Some (Inl e, w) \<Rightarrow>
          (case except_handler env e w of (oc, w') \<Rightarrow> Some (oc, ssh_close w'))
      | Some (Inr u, w) \<Rightarrow> Some (Returned, ssh_close w))"

definition main :: "env \<Rightarrow> (outcome \<times> world) option" where
  "main env = main_on commands env"

section \<open>Describing a run\<close>

text \<open>
  The definitions of this section are not part of the script: they describe environments
  and traces, so that the theorems below can be stated.
\<close>

subsection \<open>What a remote process does\<close>

text \<open>
  \<open>reads_from rd i ls\<close>: from index \<open>i\<close> on, \<^verbatim>\<open>readline\<close> returns the lines
  \<open>ls\<close>, none of them empty. A process completes, with output lines \<open>ls\<close> and exit
  status \<open>s\<close>, when \<^verbatim>\<open>exec_command\<close> returns, the output ends after \<open>ls\<close> and
  the exit status arrives. Its invocation raises \<open>e\<close> when \<^verbatim>\<open>exec_command\<close> raises
  it, or \<^verbatim>\<open>readline\<close> does after the lines \<open>ls\<close>.
\<close>

fun reads_from :: "(nat \<Rightarrow> exn + string) \<Rightarrow> nat \<Rightarrow> string list \<Rightarrow> bool" where
  "reads_from rd i [] = True"
| "reads_from rd i (l # ls) = (rd i = Inr l \<and> l \<noteq> [] \<and> reads_from rd (Suc i) ls)"

definition completes :: "process \<Rightarrow> string list \<Rightarrow> int \<Rightarrow> bool" where
  "completes p ls s =
     (exec_raises p = None \<and> reads_from (readline p) 0 ls \<and> readline p (length ls) = Inr [] \<and>
      exit_status p = Some s)"

definition raises :: "process \<Rightarrow> string list \<Rightarrow> exn \<Rightarrow> bool" where
  "raises p ls e =
     (if exec_raises p = None
      then reads_from (readline p) 0 ls \<and> readline p (length ls) = Inl e
      else exec_raises p = Some e \<and> ls = [])"

text \<open>
  The same for one round of the loop, which begins with the announcement. The \<open>k\<close>-th
  call of \<^verbatim>\<open>exec_command\<close>, for \<open>cmd\<close>, runs (to exit status \<open>s\<close>) when the command can
  be announced and its process completes. It fails with \<open>e\<close> when the announcement raises
  \<open>e\<close>, or the command can be announced and the invocation of its process raises \<open>e\<close>.
\<close>

definition runs :: "env \<Rightarrow> nat \<Rightarrow> string \<Rightarrow> nat \<Rightarrow> string list \<Rightarrow> int \<Rightarrow> bool" where
  "runs env k cmd t ls s = (encodable env cmd \<and> completes (exec_command env k cmd t) ls s)"

definition announce_error :: "env \<Rightarrow> string \<Rightarrow> exn" where
  "announce_error env cmd = Raised UnicodeEncodeError (encode_error env (''\<newline>>>> '' @ cmd))"

definition fails :: "env \<Rightarrow> nat \<Rightarrow> string \<Rightarrow> nat \<Rightarrow> string list \<Rightarrow> exn \<Rightarrow> bool" where
  "fails env k cmd t ls e =
     (if encodable env cmd then raises (exec_command env k cmd t) ls e
      else e = announce_error env cmd \<and> ls = [])"

subsection \<open>The events of one command\<close>

text \<open>
  What \<^verbatim>\<open>run_command\<close> adds to the trace: the announcement and the call, a read and a
  print for every line, the read that ends the stream, the read of the error stream with
  its block when there is one to print, and the exit status; and what the loop adds after
  it, the warning. \<open>advance k evs\<close> appends events to the trace and counts \<open>k\<close> more
  calls of \<^verbatim>\<open>exec_command\<close>.
\<close>

definition line_event :: "env \<Rightarrow> string \<Rightarrow> event" where
  "line_event env line =
     (if encodable env line then Print Stdout line else Print StdoutLossy (ascii_replace line))"

fun line_events :: "env \<Rightarrow> string list \<Rightarrow> event list" where
  "line_events env [] = []"
| "line_events env (l # ls) = Readline (Inr l) # line_event env l # line_events env ls"

definition stderr_events :: "env \<Rightarrow> process \<Rightarrow> event list" where
  "stderr_events env p =
     (case stderr_text p of
        Inl e \<Rightarrow> [StderrRead (Inl e)]
      | Inr err \<Rightarrow>
          StderrRead (Inr err) #
          (if err \<noteq> [] \<and> encodable env err then [Print Stderr (''STDERR: '' @ err @ ''\<newline>'')] else []))"

definition announce :: "string \<Rightarrow> nat \<Rightarrow> event list" where
  "announce cmd t = [Print Announce (''\<newline>>>> '' @ cmd @ ''\<newline>''), ExecCommand cmd t]"

definition completed_events :: "env \<Rightarrow> string \<Rightarrow> nat \<Rightarrow> process \<Rightarrow> string list \<Rightarrow> int \<Rightarrow> event list" where
  "completed_events env cmd t p ls s =
     announce cmd t @ line_events env ls @ [Readline (Inr [])] @ stderr_events env p @
     [RecvExitStatus s]"

definition raised_events :: "env \<Rightarrow> string \<Rightarrow> nat \<Rightarrow> process \<Rightarrow> string list \<Rightarrow> exn \<Rightarrow> event list" where
  "raised_events env cmd t p ls e =
     (if encodable env cmd
      then announce cmd t @
        (if exec_raises p = None then line_events env ls @ [Readline (Inl e)] else [])
      else [])"

definition warning_line :: "int \<Rightarrow> string" where
  "warning_line status = ''\<newline>Warning: Command exited with status '' @ str_int status @ ''\<newline>''"

definition warning_events :: "string \<Rightarrow> int \<Rightarrow> event list" where
  "warning_events cmd status =
     (if status \<noteq> 0 \<and> \<not> str_contains ''curl'' cmd
      then [Print Warn (''\<newline>Warning: Command exited with status '' @ str_int status @ ''\<newline>'')]
      else [])"

text \<open>What the handler of \<^verbatim>\<open>main\<close> does with the exception \<open>e\<close>: the world it leaves
  and the way \<^verbatim>\<open>main\<close> ends.\<close>

definition reported :: "env \<Rightarrow> exn \<Rightarrow> world \<Rightarrow> world" where
  "reported env e w =
     (if encodable env (message e)
      then emit (Print Report (''Error: '' @ message e @ ''\<newline>'')) w else w)"

definition handled :: "env \<Rightarrow> exn \<Rightarrow> outcome" where
  "handled env e =
     (if encodable env (message e) then SystemExit 1
      else Uncaught (Raised UnicodeEncodeError (encode_error env (''Error: '' @ message e))))"

definition advance :: "nat \<Rightarrow> event list \<Rightarrow> world \<Rightarrow> world" where
  "advance k evs w = w\<lparr>trace := trace w @ evs, calls := calls w + k\<rparr>"

definition after_connect :: world where
  "after_connect =
     print_text Banner ''Connected successfully!\<newline>'' ''\<newline>''
       (emit Connect (print_header start)\<lparr>ssh := Connected\<rparr>)"

subsection \<open>Reading a trace\<close>

text \<open>
  The commands passed to \<^verbatim>\<open>exec_command\<close>, the exit statuses obtained and the texts
  written to the output (all of them, those of one statement of the script, those of the
  lines of remote output), each in the order of the trace.
\<close>

fun execs :: "event list \<Rightarrow> string list" where
  "execs [] = []"
| "execs (ExecCommand c t # es) = c # execs es"
| "execs (e # es) = execs es"

fun statuses :: "event list \<Rightarrow> int list" where
  "statuses [] = []"
| "statuses (RecvExitStatus n # es) = n # statuses es"
| "statuses (e # es) = statuses es"

fun prints :: "event list \<Rightarrow> (source \<times> string) list" where
  "prints [] = []"
| "prints (Print src s # es) = (src, s) # prints es"
| "prints (e # es) = prints es"

definition printed :: "source \<Rightarrow> event list \<Rightarrow> string list" where
  "printed src es = map snd (filter (\<lambda>p. fst p = src) (prints es))"

definition stdout_prints :: "event list \<Rightarrow> (source \<times> string) list" where
  "stdout_prints es = filter (\<lambda>p. fst p = Stdout \<or> fst p = StdoutLossy) (prints es)"

text \<open>
  The warnings the policy of the loop asks for, given the commands and the exit statuses
  they returned: one for each command with a non-zero status and no \<^verbatim>\<open>curl\<close> in it.
\<close>

fun warnings_for :: "string list \<Rightarrow> int list \<Rightarrow> string list" where
  "warnings_for (c # cs) (s # ss) =
     (if s \<noteq> 0 \<and> \<not> str_contains ''curl'' c then [warning_line s] else []) @ warnings_for cs ss"
| "warnings_for cs ss = []"

text \<open>The exit code of the process: 0 when \<^verbatim>\<open>main\<close> returns, the argument of
  \<^verbatim>\<open>sys.exit\<close> otherwise; none when the run never ends.\<close>

definition process_exit_code :: "string list \<Rightarrow> env \<Rightarrow> int option" where
  "process_exit_code cmds env = map_option (exit_code \<circ> fst) (main_on cmds env)"

text \<open>The number a string of decimal digits stands for, to say what \<open>digits\<close>
  produces.\<close>

definition decimal :: "string \<Rightarrow> nat" where
  "decimal s = foldl (\<lambda>a c. 10 * a + (of_char c - 48)) 0 s"

subsection \<open>Numbers, warnings and lines as they are read\<close>

text \<open>
  What a reader of the output sees, said without the functions of the script. A decimal
  numeral is a non-empty string of digits with no leading zero (the single digit zero
  apart); \<open>numeral_of i t\<close>: the text \<open>t\<close> is the integer \<open>i\<close> written in decimal, with
  a minus sign when it is negative. \<open>is_warning status s\<close>: the text \<open>s\<close> is the
  warning for the exit status \<open>status\<close>. \<open>warned\<close> selects, from the exit statuses the
  commands returned, those the specification wants a warning for. \<open>line_breaks\<close> counts
  the line breaks of a text: a text that ends with a line break is one line when it has
  exactly one.
\<close>

definition is_numeral :: "string \<Rightarrow> bool" where
  "is_numeral t =
     (t \<noteq> [] \<and> list_all (\<lambda>c. c \<in> set ''0123456789'') t \<and> (hd t = CHR ''0'' \<longrightarrow> t = ''0''))"

definition numeral_of :: "int \<Rightarrow> string \<Rightarrow> bool" where
  "numeral_of i t =
     (if i < 0
      then t \<noteq> [] \<and> hd t = CHR ''-'' \<and> is_numeral (tl t) \<and> int (decimal (tl t)) = - i
      else is_numeral t \<and> int (decimal t) = i)"

definition is_warning :: "int \<Rightarrow> string \<Rightarrow> bool" where
  "is_warning status s =
     (let p = ''\<newline>Warning: Command exited with status '' in
      prefix p s \<and> length p < length s \<and> last s = CHR 0x0A \<and>
      numeral_of status (butlast (drop (length p) s)))"

fun warned :: "string list \<Rightarrow> int list \<Rightarrow> int list" where
  "warned (c # cs) (s # ss) =
     (if s \<noteq> 0 \<and> \<not> sublist ''curl'' c then [s] else []) @ warned cs ss"
| "warned cs ss = []"

definition line_breaks :: "string \<Rightarrow> nat" where
  "line_breaks s = count_list s (CHR 0x0A)"

subsection \<open>Commands one after the other\<close>

text \<open>
  A trace is followed with three marks for the command in flight: its output stream has
  been read to the end, its error stream has been read, its exit status has been obtained.
  \<^verbatim>\<open>exec_command\<close> may only be called when all three are set (as they are before the
  first command), and clears them. With \<open>strict\<close>, the error stream counts as read only
  when the read returned; without, also when the read raised.
\<close>

type_synonym progress = "bool \<times> bool \<times> bool"

fun step :: "bool \<Rightarrow> progress \<Rightarrow> event \<Rightarrow> progress option" where
  "step strict (out, err, st) (ExecCommand c t) =
     (if out \<and> err \<and> st then Some (False, False, False) else None)"
| "step strict (out, err, st) (Readline r) = Some (out \<or> r = Inr [], err, st)"
| "step strict (out, err, st) (StderrRead r) = Some (out, err \<or> \<not> isl r \<or> \<not> strict, st)"
| "step strict (out, err, st) (RecvExitStatus n) = Some (out, err, True)"
| "step strict (out, err, st) e = Some (out, err, st)"

fun follow :: "bool \<Rightarrow> progress \<Rightarrow> event list \<Rightarrow> progress option" where
  "follow strict s [] = Some s"
| "follow strict s (e # es) =
     (case step strict s e of None \<Rightarrow> None | Some s' \<Rightarrow> follow strict s' es)"

definition drained_before_next :: "bool \<Rightarrow> event list \<Rightarrow> bool" where
  "drained_before_next strict tr = (follow strict (True, True, True) tr \<noteq> None)"

subsection \<open>Concrete environments\<close>

text \<open>
  A process that prints nothing and exits with status 0, an environment in which every
  command is such a process and the output encoding is ASCII, and variations: connecting
  times out; a line with an accented character; the read of the error stream raises;
  every command fails with status 100; the scenario of the specification (\<^verbatim>\<open>true\<close>
  succeeds, the others exit with status 1); command \<^verbatim>\<open>a\<close> whose error stream cannot
  be read followed by command \<^verbatim>\<open>b\<close> whose output times out after one line;
  connecting fails with a message that has an accented character, or with a message of
  two lines.
\<close>

definition silent :: process where
  "silent = \<lparr>exec_raises = None, readline = (\<lambda>i. Inr []), stderr_text = Inr [],
     exit_status = Some 0\<rparr>"

definition calm :: env where
  "calm = \<lparr>connect_raises = None, exec_command = (\<lambda>k c t. silent),
     stdout_encodes = (\<lambda>c. False), encode_error = (\<lambda>s. ''codec cannot encode character'')\<rparr>"

definition refusing :: env where
  "refusing = calm\<lparr>connect_raises := Some (Raised OtherException ''timed out'')\<rparr>"


definition stderr_broken :: env where
  "stderr_broken = calm\<lparr>exec_command := (\<lambda>k c t.
     silent\<lparr>stderr_text := Inl (Raised OtherException ''timed out''), exit_status := Some 3\<rparr>)\<rparr>"

definition failing :: env where
  "failing = calm\<lparr>exec_command := (\<lambda>k c t. silent\<lparr>exit_status := Some 100\<rparr>)\<rparr>"

definition scenario :: env where
  "scenario = calm\<lparr>exec_command := (\<lambda>k c t.
     if c = ''true'' then silent else silent\<lparr>exit_status := Some 1\<rparr>)\<rparr>"

definition stalls :: env where
  "stalls = calm\<lparr>exec_command := (\<lambda>k c t.
     if c = ''a'' then silent\<lparr>stderr_text := Inl (Raised OtherException ''timed out'')\<rparr>
     else if c = ''b'' then
       silent\<lparr>readline := (\<lambda>i. if i = 0 then Inr ''building\<newline>''
                               else Inl (Raised OtherException ''timed out''))\<rparr>
     else silent)\<rparr>"

definition garbled :: env where
  "garbled = calm\<lparr>connect_raises :=
     Some (Raised OtherException (''Connexion refus'' @ [CHR 0xE9, CHR ''e'']))\<rparr>"

definition verbose :: env where
  "verbose = calm\<lparr>connect_raises :=
     Some (Raised OtherException ''Unable to connect\<newline>caused by: timed out'')\<rparr>"

section \<open>Lemmas about the model\<close>

subsection \<open>The world\<close>

lemma emit_simps [simp]:
  "trace (emit e w) = trace w @ [e]" "calls (emit e w) = calls w" "ssh (emit e w) = ssh w"
  by (simp_all add: emit_def)

lemma print_text_simps [simp]:
  "trace (print_text src s ending w) = trace w @ [Print src (s @ ending)]"
  "calls (print_text src s ending w) = calls w" "ssh (print_text src s ending w) = ssh w"
  by (simp_all add: print_text_def)

lemma advance_simps [simp]:
  "trace (advance k evs w) = trace w @ evs" "calls (advance k evs w) = calls w + k"
  "ssh (advance k evs w) = ssh w"
  by (simp_all add: advance_def)

lemma emit_advance: "emit e w = advance 0 [e] w"
  by (simp add: emit_def advance_def)

lemma advance_advance [simp]: "advance j ys (advance i xs w) = advance (i + j) (xs @ ys) w"
  by (simp add: advance_def)

subsection \<open>\<^verbatim>\<open>run_command\<close>: what it returns, and when\<close>

text \<open>
  The lossy form of a line is always representable, so printing a line never raises. The
  loop over the output returns as soon as the stream ends or \<^verbatim>\<open>readline\<close> raises,
  and it returns only then (\<open>stream_output_Some\<close>, by the induction rule of the
  partial function).
\<close>

lemma encodable_ascii_replace: "encodable env (ascii_replace s)"
  by (induction s) (simp_all add: encodable_def ascii_replace_def)

lemma print_line_eq: "print_line env line w = Inr (advance 0 [line_event env line] w)"
  by (simp add: print_line_def print_value_def line_event_def encodable_ascii_replace
      print_text_def emit_advance)

lemma stream_output_eof:
  "reads_from rd i ls \<Longrightarrow> rd (i + length ls) = Inr [] \<Longrightarrow>
   stream_output env rd i w = Some (Inr (), advance 0 (line_events env ls @ [Readline (Inr [])]) w)"
proof (induction ls arbitrary: i w)
  case Nil
  then show ?case by (subst stream_output.simps) (simp add: emit_advance)
next
  case (Cons l ls)
  from Cons.prems have l: "rd i = Inr l" "l \<noteq> []" and rest: "reads_from rd (Suc i) ls"
    and e: "rd (Suc i + length ls) = Inr []" by simp_all
  show ?case
    by (subst stream_output.simps) (simp add: l print_line_eq emit_advance Cons.IH [OF rest e])
qed

lemma stream_output_raise:
  "reads_from rd i ls \<Longrightarrow> rd (i + length ls) = Inl e \<Longrightarrow>
   stream_output env rd i w = Some (Inl e, advance 0 (line_events env ls @ [Readline (Inl e)]) w)"
proof (induction ls arbitrary: i w)
  case Nil
  then show ?case by (subst stream_output.simps) (simp add: emit_advance)
next
  case (Cons l ls)
  from Cons.prems have l: "rd i = Inr l" "l \<noteq> []" and rest: "reads_from rd (Suc i) ls"
    and e: "rd (Suc i + length ls) = Inl e" by simp_all
  show ?case
    by (subst stream_output.simps) (simp add: l print_line_eq emit_advance Cons.IH [OF rest e])
qed

lemma stream_output_Some:
  assumes "stream_output env rd i w = Some y"
  shows "\<exists>ls. reads_from rd i ls \<and> (rd (i + length ls) = Inr [] \<or> (\<exists>e. rd (i + length ls) = Inl e))"
  using assms
proof (induct rule: stream_output.raw_induct [rotated 1, consumes 1, case_names step])
  case (step f env rd i w y)
  show ?case
  proof (cases "rd i")
    case (Inl e)
    then have "reads_from rd i [] \<and> (\<exists>e. rd (i + length ([]::string list)) = Inl e)" by simp
    then show ?thesis by blast
  next
    case (Inr line)
    show ?thesis
    proof (cases "line = []")
      case True
      with Inr have "reads_from rd i [] \<and> rd (i + length ([]::string list)) = Inr []" by simp
      then show ?thesis by blast
    next
      case False
      with Inr step(2) have "f env rd (Suc i) (advance 0 [line_event env line] (emit (Readline (Inr line)) w)) = Some y"
        by (simp add: print_line_eq)
      from step(1) [OF this] obtain ls where
        "reads_from rd (Suc i) ls" "rd (Suc i + length ls) = Inr [] \<or> (\<exists>e. rd (Suc i + length ls) = Inl e)"
        by blast
      with Inr False have "reads_from rd i (line # ls) \<and>
         (rd (i + length (line # ls)) = Inr [] \<or> (\<exists>e. rd (i + length (line # ls)) = Inl e))"
        by simp
      then show ?thesis by blast
    qed
  qed
qed

lemma encodable_append [simp]: "encodable env (a @ b) = (encodable env a \<and> encodable env b)"
  by (simp add: encodable_def)

lemma encodable_Nil [simp]: "encodable env []"
  by (simp add: encodable_def)

lemma encodable_Cons [simp]:
  "encodable env (c # s) = ((\<not> digit7 c \<or> stdout_encodes env c) \<and> encodable env s)"
  by (simp add: encodable_def)

lemma check_stderr_eq: "check_stderr env p w = advance 0 (stderr_events env p) w"
  by (simp add: check_stderr_def stderr_events_def print_value_def print_text_def emit_advance
      advance_def Let_def split: sum.splits)

lemma advance_nothing [simp]: "advance 0 [] w = w"
  by (simp add: advance_def)

lemma print_value_encodable:
  "encodable env s \<Longrightarrow> print_value env src s ending w = Inr (print_text src s ending w)"
  by (simp add: print_value_def)

lemma run_command_unencodable:
  "\<not> encodable env cmd \<Longrightarrow> run_command env cmd t w = Some (Inl (announce_error env cmd), w)"
  by (simp add: run_command_def print_value_def announce_error_def)

lemma run_command_unfold:
  assumes "encodable env cmd"
  shows "run_command env cmd t w =
     (case exec_raises (exec_command env (calls w) cmd t) of
        Some e \<Rightarrow> Some (Inl e, advance 1 (announce cmd t) w)
      | None \<Rightarrow>
          (case stream_output env (readline (exec_command env (calls w) cmd t)) 0
                  (advance 1 (announce cmd t) w) of
             None \<Rightarrow> None
           | Some (Inl e, w3) \<Rightarrow> Some (Inl e, w3)
           | Some (Inr u, w3) \<Rightarrow>
               (case exit_status (exec_command env (calls w) cmd t) of
                  None \<Rightarrow> None
                | Some s \<Rightarrow>
                    Some (Inr s,
                      advance 0 (stderr_events env (exec_command env (calls w) cmd t) @
                        [RecvExitStatus s]) w3))))"
proof -
  have w2: "emit (ExecCommand cmd t)
      ((print_text Announce (''\<newline>>>> '' @ cmd) ''\<newline>'' w)
        \<lparr>calls := Suc (calls w)\<rparr>)
    = advance 1 (announce cmd t) w"
    by (simp add: emit_def print_text_def advance_def announce_def)
  have p: "print_value env Announce (''\<newline>>>> '' @ cmd) ''\<newline>'' w =
      Inr (print_text Announce (''\<newline>>>> '' @ cmd) ''\<newline>'' w)"
    using assms by (simp add: print_value_def)
  show ?thesis
    unfolding run_command_def p sum.case Let_def print_text_simps(2) w2
    by (simp add: check_stderr_eq emit_advance split: option.splits sum.splits prod.splits)
qed

lemma run_command_completes:
  assumes "runs env (calls w) cmd t ls s"
  shows "run_command env cmd t w =
     Some (Inr s, advance 1 (completed_events env cmd t (exec_command env (calls w) cmd t) ls s) w)"
proof -
  let ?p = "exec_command env (calls w) cmd t"
  from assms have enc: "encodable env cmd" by (simp add: runs_def)
  from assms have "reads_from (readline ?p) 0 ls" "readline ?p (0 + length ls) = Inr []"
    by (simp_all add: runs_def completes_def)
  from stream_output_eof [OF this] assms show ?thesis
    by (simp add: run_command_unfold [OF enc] runs_def completes_def completed_events_def)
qed

lemma run_command_raises:
  assumes "fails env (calls w) cmd t ls e"
  shows "run_command env cmd t w =
     Some (Inl e, advance (if encodable env cmd then 1 else 0)
       (raised_events env cmd t (exec_command env (calls w) cmd t) ls e) w)"
proof (cases "encodable env cmd")
  case False
  with assms run_command_unencodable [OF False] show ?thesis
    by (simp add: fails_def raised_events_def)
next
  case enc: True
  show ?thesis
  proof (cases "exec_raises (exec_command env (calls w) cmd t)")
    case (Some e')
    with assms enc show ?thesis
      by (simp add: run_command_unfold [OF enc] fails_def raises_def raised_events_def)
  next
    case None
    let ?p = "exec_command env (calls w) cmd t"
    from assms None enc have "reads_from (readline ?p) 0 ls" "readline ?p (0 + length ls) = Inl e"
      by (simp_all add: fails_def raises_def)
    from stream_output_raise [OF this] None enc show ?thesis
      by (simp add: run_command_unfold [OF enc] raised_events_def)
  qed
qed

lemma run_command_Some:
  assumes "run_command env cmd t w = Some (r, w')"
  shows "\<exists>ls. case r of Inl e \<Rightarrow> fails env (calls w) cmd t ls e
                 | Inr s \<Rightarrow> runs env (calls w) cmd t ls s"
proof (cases "encodable env cmd")
  case False
  with assms run_command_unencodable [OF False, of t w]
  have "case r of Inl e \<Rightarrow> fails env (calls w) cmd t [] e
                 | Inr s \<Rightarrow> runs env (calls w) cmd t [] s"
    by (auto simp add: fails_def)
  then show ?thesis ..
next
  case enc: True
  note unf = run_command_unfold [OF enc]
  let ?p = "exec_command env (calls w) cmd t"
  show ?thesis
  proof (cases "exec_raises ?p")
    case (Some e)
    with assms have "r = Inl e" by (simp add: unf)
    with Some enc have "case r of Inl e \<Rightarrow> fails env (calls w) cmd t [] e
                 | Inr s \<Rightarrow> runs env (calls w) cmd t [] s"
      by (simp add: fails_def raises_def)
    then show ?thesis ..
  next
    case None
    from assms None obtain y where
      y: "stream_output env (readline ?p) 0 (advance 1 (announce cmd t) w) = Some y"
      by (auto simp add: unf split: option.splits)
    from stream_output_Some [OF y] obtain ls where ls: "reads_from (readline ?p) 0 ls"
      and fin: "readline ?p (length ls) = Inr [] \<or> (\<exists>e. readline ?p (length ls) = Inl e)"
      by auto
    from fin show ?thesis
    proof
      assume eof: "readline ?p (length ls) = Inr []"
      from eof have "readline ?p (0 + length ls) = Inr []" by simp
      from stream_output_eof [OF ls this, of env "advance 1 (announce cmd t) w"] assms None
      obtain s where "exit_status ?p = Some s" "r = Inr s"
        by (auto simp add: unf split: option.splits)
      with None ls eof enc have "case r of Inl e \<Rightarrow> fails env (calls w) cmd t ls e
          | Inr s \<Rightarrow> runs env (calls w) cmd t ls s"
        by (simp add: runs_def completes_def)
      then show ?thesis ..
    next
      assume "\<exists>e. readline ?p (length ls) = Inl e"
      then obtain e where e: "readline ?p (length ls) = Inl e" ..
      from e have "readline ?p (0 + length ls) = Inl e" by simp
      from stream_output_raise [OF ls this, of env "advance 1 (announce cmd t) w"] assms None
      have "r = Inl e"
        by (auto simp add: unf split: option.splits)
      with None ls e enc have "case r of Inl e \<Rightarrow> fails env (calls w) cmd t ls e
          | Inr s \<Rightarrow> runs env (calls w) cmd t ls s"
        by (simp add: fails_def raises_def)
      then show ?thesis ..
    qed
  qed
qed

subsection \<open>Reading the events of one command\<close>

lemma execs_append [simp]: "execs (xs @ ys) = execs xs @ execs ys"
  by (induction xs rule: execs.induct) simp_all

lemma statuses_append [simp]: "statuses (xs @ ys) = statuses xs @ statuses ys"
  by (induction xs rule: statuses.induct) simp_all

lemma prints_append [simp]: "prints (xs @ ys) = prints xs @ prints ys"
  by (induction xs rule: prints.induct) simp_all

lemma printed_Nil [simp]: "printed src [] = []"
  by (simp add: printed_def)

lemma printed_Cons [simp]:
  "printed src (e # es) =
     (case e of Print s x \<Rightarrow> if s = src then [x] else [] | _ \<Rightarrow> []) @ printed src es"
  by (cases e) (simp_all add: printed_def)

lemma printed_append [simp]: "printed src (xs @ ys) = printed src xs @ printed src ys"
  by (simp add: printed_def)

lemma follow_append:
  "follow strict s (xs @ ys) =
     (case follow strict s xs of None \<Rightarrow> None | Some s' \<Rightarrow> follow strict s' ys)"
  by (induction xs arbitrary: s) (simp_all split: option.splits)

lemma line_events_obs [simp]:
  "execs (line_events env ls) = []" "statuses (line_events env ls) = []"
  "printed Warn (line_events env ls) = []" "printed Report (line_events env ls) = []"
  "printed Stderr (line_events env ls) = []" "printed Announce (line_events env ls) = []"
  "Close \<notin> set (line_events env ls)"
  by (induction ls) (simp_all add: line_event_def)

lemma stderr_events_obs [simp]:
  "execs (stderr_events env p) = []" "statuses (stderr_events env p) = []"
  "printed Warn (stderr_events env p) = []" "printed Report (stderr_events env p) = []"
  "printed Announce (stderr_events env p) = []"
  "Close \<notin> set (stderr_events env p)"
  by (simp_all add: stderr_events_def split: sum.splits)

lemma warning_events_obs [simp]:
  "execs (warning_events cmd s) = []" "statuses (warning_events cmd s) = []"
  "printed Report (warning_events cmd s) = []" "printed Stderr (warning_events cmd s) = []"
  "printed Announce (warning_events cmd s) = []"
  "Close \<notin> set (warning_events cmd s)"
  by (simp_all add: warning_events_def)

lemma announce_obs [simp]:
  "execs (announce cmd t) = [cmd]" "statuses (announce cmd t) = []"
  "printed Warn (announce cmd t) = []" "printed Report (announce cmd t) = []"
  "printed Stderr (announce cmd t) = []"
  "printed Announce (announce cmd t) = [''\<newline>>>> '' @ cmd @ ''\<newline>'']"
  "Close \<notin> set (announce cmd t)"
  by (simp_all add: announce_def)

lemma completed_events_obs [simp]:
  "execs (completed_events env cmd t p ls s) = [cmd]"
  "statuses (completed_events env cmd t p ls s) = [s]"
  "printed Warn (completed_events env cmd t p ls s) = []"
  "printed Report (completed_events env cmd t p ls s) = []"
  "printed Announce (completed_events env cmd t p ls s) = [''\<newline>>>> '' @ cmd @ ''\<newline>'']"
  "Close \<notin> set (completed_events env cmd t p ls s)"
  by (simp_all add: completed_events_def)

lemma raised_events_obs [simp]:
  "execs (raised_events env cmd t p ls e) = (if encodable env cmd then [cmd] else [])"
  "statuses (raised_events env cmd t p ls e) = []"
  "printed Warn (raised_events env cmd t p ls e) = []"
  "printed Report (raised_events env cmd t p ls e) = []"
  "Close \<notin> set (raised_events env cmd t p ls e)"
  by (simp_all add: raised_events_def)

lemma follow_line_events:
  "reads_from rd i ls \<Longrightarrow> follow strict (out, err, st) (line_events env ls) = Some (out, err, st)"
  by (induction ls arbitrary: i) (auto simp add: line_event_def)

lemma follow_stderr_events:
  "follow strict (out, err, st) (stderr_events env p) =
     Some (out, err \<or> \<not> isl (stderr_text p) \<or> \<not> strict, st)"
  by (simp add: stderr_events_def split: sum.splits)

lemma follow_warning_events: "follow strict s (warning_events cmd n) = Some s"
  by (cases s) (simp add: warning_events_def)

lemma follow_completed:
  assumes "reads_from (readline p) 0 ls"
  shows "follow strict (True, True, True) (completed_events env cmd t p ls s) =
     Some (True, \<not> isl (stderr_text p) \<or> \<not> strict, True)"
  using follow_line_events [OF assms]
  by (simp add: completed_events_def announce_def follow_append follow_stderr_events)

lemma follow_raised:
  assumes "exec_raises p = None \<longrightarrow> reads_from (readline p) 0 ls"
  shows "follow strict (True, True, True) (raised_events env cmd t p ls e) =
    Some (if encodable env cmd then (False, False, False) else (True, True, True))"
proof (cases "exec_raises p")
  case None
  with assms follow_line_events [of "readline p" 0 ls] show ?thesis
    by (simp add: raised_events_def announce_def follow_append)
next
  case (Some a)
  then show ?thesis by (simp add: raised_events_def announce_def)
qed

subsection \<open>The loop over the commands\<close>

text \<open>
  One round of the loop either ends it with the exception of the command, or goes on
  from the world the completed command leaves. The properties of a whole loop follow by
  induction on the list of commands.
\<close>

lemma for_commands_Cons_cases:
  assumes "for_commands env (cmd # rest) w = Some (r, w')"
  obtains (raised) ls e where "fails env (calls w) cmd 300 ls e" "r = Inl e"
      "w' = advance (if encodable env cmd then 1 else 0)
         (raised_events env cmd 300 (exec_command env (calls w) cmd 300) ls e) w"
  | (completed) ls s where "runs env (calls w) cmd 300 ls s"
      "for_commands env rest
         (advance 1 (completed_events env cmd 300 (exec_command env (calls w) cmd 300) ls s @
            warning_events cmd s) w) = Some (r, w')"
proof -
  let ?p = "exec_command env (calls w) cmd 300"
  from assms obtain r1 w1 where rc: "run_command env cmd 300 w = Some (r1, w1)"
    by (auto split: option.splits)
  from run_command_Some [OF rc] obtain ls where
    ls: "case r1 of Inl e \<Rightarrow> fails env (calls w) cmd 300 ls e
         | Inr s \<Rightarrow> runs env (calls w) cmd 300 ls s" ..
  show thesis
  proof (cases r1)
    case (Inl e)
    with ls have ra: "fails env (calls w) cmd 300 ls e" by simp
    from run_command_raises [OF ra] rc Inl assms show thesis
      by (intro raised [OF ra]) simp_all
  next
    case (Inr s)
    with ls have co: "runs env (calls w) cmd 300 ls s" by simp
    from run_command_completes [OF co] rc Inr assms
    have "for_commands env rest
         (advance 1 (completed_events env cmd 300 ?p ls s @ warning_events cmd s) w) = Some (r, w')"
      by (cases "s \<noteq> 0 \<and> \<not> str_contains ''curl'' cmd")
        (auto simp add: warning_events_def print_text_def emit_advance)
    with co show thesis by (rule completed)
  qed
qed

lemma str_contains_sublist: "str_contains sub s = sublist sub s"
  by (induction s) (simp_all add: sublist_Cons_right)

lemma for_commands_execs:
  "for_commands env cmds w = Some (r, w') \<Longrightarrow>
   \<exists>n. execs (trace w') = execs (trace w) @ take n cmds \<and> (r = Inr () \<longrightarrow> n = length cmds)
     \<and> calls w' = calls w + min n (length cmds) \<and> ssh w' = ssh w"
proof (induction cmds arbitrary: w)
  case Nil
  then show ?case by auto
next
  case (Cons cmd rest)
  from Cons.prems show ?case
  proof (cases rule: for_commands_Cons_cases)
    case (raised ls e)
    let ?n = "if encodable env cmd then 1 else 0 :: nat"
    from raised have "execs (trace w') = execs (trace w) @ take ?n (cmd # rest) \<and>
       (r = Inr () \<longrightarrow> ?n = length (cmd # rest)) \<and>
       calls w' = calls w + min ?n (length (cmd # rest)) \<and> ssh w' = ssh w"
      by simp
    then show ?thesis by blast
  next
    case (completed ls s)
    from Cons.IH [OF completed(2)] obtain n where
      "execs (trace w') = execs (trace w) @ cmd # take n rest" "r = Inr () \<longrightarrow> n = length rest"
      "calls w' = calls w + 1 + min n (length rest)" "ssh w' = ssh w"
      by auto
    then have "execs (trace w') = execs (trace w) @ take (Suc n) (cmd # rest) \<and>
       (r = Inr () \<longrightarrow> Suc n = length (cmd # rest)) \<and>
       calls w' = calls w + min (Suc n) (length (cmd # rest)) \<and> ssh w' = ssh w"
      by simp
    then show ?thesis by blast
  qed
qed

lemma for_commands_follow:
  "for_commands env cmds w = Some (r, w') \<Longrightarrow>
   follow False (True, True, True) (trace w) = Some (True, True, True) \<Longrightarrow>
   \<exists>s. follow False (True, True, True) (trace w') = Some s \<and> (r = Inr () \<longrightarrow> s = (True, True, True))"
proof (induction cmds arbitrary: w)
  case Nil
  then show ?case by auto
next
  case (Cons cmd rest)
  from Cons.prems(1) show ?case
  proof (cases rule: for_commands_Cons_cases)
    case (raised ls e)
    let ?p = "exec_command env (calls w) cmd 300"
    have "follow False (True, True, True) (raised_events env cmd 300 ?p ls e) =
        Some (if encodable env cmd then (False, False, False) else (True, True, True))"
    proof (cases "encodable env cmd")
      case True
      with raised have "exec_raises ?p = None \<longrightarrow> reads_from (readline ?p) 0 ls"
        by (simp add: fails_def raises_def)
      from follow_raised [OF this] show ?thesis .
    next
      case False
      then show ?thesis by (simp add: raised_events_def)
    qed
    with raised Cons.prems(2)
    have "follow False (True, True, True) (trace w') =
        Some (if encodable env cmd then (False, False, False) else (True, True, True))"
      by (simp add: follow_append)
    with raised(2) show ?thesis by blast
  next
    case (completed ls s)
    then have "reads_from (readline (exec_command env (calls w) cmd 300)) 0 ls"
      by (simp add: runs_def completes_def)
    from follow_completed [OF this, of False env cmd 300 s] Cons.prems(2)
    have "follow False (True, True, True)
       (trace (advance 1 (completed_events env cmd 300 (exec_command env (calls w) cmd 300) ls s @
            warning_events cmd s) w)) = Some (True, True, True)"
      by (simp add: follow_append follow_warning_events)
    from Cons.IH [OF completed(2) this] show ?thesis .
  qed
qed

lemma for_commands_Close:
  "for_commands env cmds w = Some (r, w') \<Longrightarrow> Close \<notin> set (trace w) \<Longrightarrow>
   Close \<notin> set (trace w') \<and> printed Report (trace w') = printed Report (trace w)"
proof (induction cmds arbitrary: w)
  case Nil
  then show ?case by auto
next
  case (Cons cmd rest)
  from Cons.prems(1) show ?case
  proof (cases rule: for_commands_Cons_cases)
    case (raised ls e)
    with Cons.prems(2) show ?thesis by simp
  next
    case (completed ls s)
    from Cons.IH [OF completed(2)] Cons.prems(2) show ?thesis by simp
  qed
qed

lemma for_commands_warnings:
  "for_commands env cmds w = Some (r, w') \<Longrightarrow>
   \<exists>sts. statuses (trace w') = statuses (trace w) @ sts \<and>
     printed Warn (trace w') = printed Warn (trace w) @ warnings_for cmds sts \<and>
     execs (trace w') = execs (trace w) @
       take (length sts + (if r \<noteq> Inr () \<and> encodable env (cmds ! length sts) then 1 else 0)) cmds \<and>
     (r = Inr () \<longrightarrow> length sts = length cmds) \<and> (r \<noteq> Inr () \<longrightarrow> length sts < length cmds)"
proof (induction cmds arbitrary: w)
  case Nil
  then show ?case by auto
next
  case (Cons cmd rest)
  from Cons.prems(1) show ?case
  proof (cases rule: for_commands_Cons_cases)
    case (raised ls e)
    let ?sts = "[] :: int list"
    from raised have "statuses (trace w') = statuses (trace w) @ ?sts \<and>
     printed Warn (trace w') = printed Warn (trace w) @ warnings_for (cmd # rest) ?sts \<and>
     execs (trace w') = execs (trace w) @
       take (length ?sts + (if r \<noteq> Inr () \<and> encodable env ((cmd # rest) ! length ?sts) then 1 else 0))
         (cmd # rest) \<and>
     (r = Inr () \<longrightarrow> length ?sts = length (cmd # rest)) \<and>
     (r \<noteq> Inr () \<longrightarrow> length ?sts < length (cmd # rest))"
      by simp
    then show ?thesis by blast
  next
    case (completed ls s)
    from Cons.IH [OF completed(2)] obtain sts where
      "statuses (trace w') = statuses (trace w) @ s # sts"
      "printed Warn (trace w') = printed Warn (trace w) @ printed Warn (warning_events cmd s) @ warnings_for rest sts"
      "execs (trace w') = execs (trace w) @ cmd #
         take (length sts + (if r \<noteq> Inr () \<and> encodable env (rest ! length sts) then 1 else 0)) rest"
      "r = Inr () \<longrightarrow> length sts = length rest" "r \<noteq> Inr () \<longrightarrow> length sts < length rest"
      by auto
    then have "statuses (trace w') = statuses (trace w) @ (s # sts) \<and>
     printed Warn (trace w') = printed Warn (trace w) @ warnings_for (cmd # rest) (s # sts) \<and>
     execs (trace w') = execs (trace w) @
       take (length (s # sts) +
         (if r \<noteq> Inr () \<and> encodable env ((cmd # rest) ! length (s # sts)) then 1 else 0)) (cmd # rest) \<and>
     (r = Inr () \<longrightarrow> length (s # sts) = length (cmd # rest)) \<and>
     (r \<noteq> Inr () \<longrightarrow> length (s # sts) < length (cmd # rest))"
      by (simp add: warning_events_def warning_line_def)
    then show ?thesis by blast
  qed
qed

lemma for_commands_step:
  assumes "runs env (calls w) cmd 300 ls s"
  shows "for_commands env (cmd # rest) w =
     for_commands env rest
       (advance 1 (completed_events env cmd 300 (exec_command env (calls w) cmd 300) ls s @
          warning_events cmd s) w)"
  using run_command_completes [OF assms]
  by (cases "s \<noteq> 0 \<and> \<not> str_contains ''curl'' cmd")
    (auto simp add: warning_events_def print_text_def emit_advance)

lemma for_commands_abort:
  assumes "fails env (calls w) cmd 300 ls e"
  shows "for_commands env (cmd # rest) w =
     Some (Inl e, advance (if encodable env cmd then 1 else 0)
       (raised_events env cmd 300 (exec_command env (calls w) cmd 300) ls e) w)"
  using run_command_raises [OF assms] by simp

lemma for_commands_completes:
  "(\<forall>j<length cmds. \<exists>ls s. runs env (calls w + j) (cmds ! j) 300 ls s) \<Longrightarrow>
   \<exists>w'. for_commands env cmds w = Some (Inr (), w')"
proof (induction cmds arbitrary: w)
  case Nil
  then show ?case by simp
next
  case (Cons cmd rest)
  from Cons.prems have "\<exists>ls s. runs env (calls w + 0) ((cmd # rest) ! 0) 300 ls s"
    by blast
  then obtain ls s where c: "runs env (calls w) cmd 300 ls s" by auto
  let ?w1 = "advance 1 (completed_events env cmd 300 (exec_command env (calls w) cmd 300) ls s @
          warning_events cmd s) w"
  have "\<forall>j<length rest. \<exists>ls s. runs env (calls ?w1 + j) (rest ! j) 300 ls s"
  proof (intro allI impI)
    fix j assume "j < length rest"
    then have "Suc j < length (cmd # rest)" by simp
    with Cons.prems have "\<exists>ls s. runs env (calls w + Suc j) ((cmd # rest) ! Suc j) 300 ls s"
      by blast
    then show "\<exists>ls s. runs env (calls ?w1 + j) (rest ! j) 300 ls s" by simp
  qed
  from Cons.IH [OF this] show ?case unfolding for_commands_step [OF c] .
qed

lemma for_commands_raises:
  "k < length cmds \<Longrightarrow>
   (\<forall>j<k. \<exists>ls s. runs env (calls w + j) (cmds ! j) 300 ls s) \<Longrightarrow>
   fails env (calls w + k) (cmds ! k) 300 ls e \<Longrightarrow>
   \<exists>w'. for_commands env cmds w = Some (Inl e, w') \<and>
     execs (trace w') = execs (trace w) @ take (if encodable env (cmds ! k) then Suc k else k) cmds \<and>
     length (statuses (trace w')) = length (statuses (trace w)) + k"
proof (induction cmds arbitrary: w k)
  case Nil
  then show ?case by simp
next
  case (Cons cmd rest)
  show ?case
  proof (cases k)
    case 0
    with Cons.prems(3) have "fails env (calls w) cmd 300 ls e" by simp
    from for_commands_abort [OF this] 0 show ?thesis by simp
  next
    case (Suc k')
    with Cons.prems(2) have "\<exists>ls s. runs env (calls w + 0) ((cmd # rest) ! 0) 300 ls s"
      by blast
    then obtain ls0 s where c: "runs env (calls w) cmd 300 ls0 s" by auto
    let ?w1 = "advance 1 (completed_events env cmd 300 (exec_command env (calls w) cmd 300) ls0 s @
          warning_events cmd s) w"
    have a: "k' < length rest" using Cons.prems(1) Suc by simp
    have b: "\<forall>j<k'. \<exists>ls s. runs env (calls ?w1 + j) (rest ! j) 300 ls s"
    proof (intro allI impI)
      fix j assume "j < k'"
      then have "Suc j < k" using Suc by simp
      with Cons.prems(2) have "\<exists>ls s. runs env (calls w + Suc j) ((cmd # rest) ! Suc j) 300 ls s"
        by blast
      then show "\<exists>ls s. runs env (calls ?w1 + j) (rest ! j) 300 ls s" by simp
    qed
    have d: "fails env (calls ?w1 + k') (rest ! k') 300 ls e"
      using Cons.prems(3) Suc by simp
    from Cons.IH [OF a b d] obtain w' where
      "for_commands env rest ?w1 = Some (Inl e, w')"
      "execs (trace w') = execs (trace ?w1) @ take (if encodable env (rest ! k') then Suc k' else k') rest"
      "length (statuses (trace w')) = length (statuses (trace ?w1)) + k'"
      by blast
    then have "for_commands env (cmd # rest) w = Some (Inl e, w') \<and>
      execs (trace w') = execs (trace w) @
        take (if encodable env ((cmd # rest) ! k) then Suc k else k) (cmd # rest) \<and>
      length (statuses (trace w')) = length (statuses (trace w)) + k"
      unfolding for_commands_step [OF c] using Suc by simp
    then show ?thesis ..
  qed
qed

subsection \<open>\<^verbatim>\<open>main\<close>: the three ways it ends\<close>

lemma ssh_close_simps [simp]:
  "trace (ssh_close w) = trace w @ [Close]" "ssh (ssh_close w) = close (ssh w)"
  "calls (ssh_close w) = calls w"
  by (simp_all add: ssh_close_def)

lemma print_header_simps [simp]:
  "execs (trace (print_header w)) = execs (trace w)"
  "statuses (trace (print_header w)) = statuses (trace w)"
  "printed Warn (trace (print_header w)) = printed Warn (trace w)"
  "printed Report (trace (print_header w)) = printed Report (trace w)"
  "Close \<in> set (trace (print_header w)) = (Close \<in> set (trace w))"
  "follow strict s (trace w) = Some s' \<Longrightarrow> follow strict s (trace (print_header w)) = Some s'"
  "calls (print_header w) = calls w" "ssh (print_header w) = ssh w"
  by (cases s', simp_all add: print_header_def follow_append)+

lemma print_footer_simps [simp]:
  "execs (trace (print_footer w)) = execs (trace w)"
  "statuses (trace (print_footer w)) = statuses (trace w)"
  "printed Warn (trace (print_footer w)) = printed Warn (trace w)"
  "printed Report (trace (print_footer w)) = printed Report (trace w)"
  "Close \<in> set (trace (print_footer w)) = (Close \<in> set (trace w))"
  "follow strict s (trace w) = Some s' \<Longrightarrow> follow strict s (trace (print_footer w)) = Some s'"
  "calls (print_footer w) = calls w" "ssh (print_footer w) = ssh w"
  by (cases s', simp_all add: print_footer_def follow_append)+

lemma start_simps [simp]: "trace start = []" "calls start = 0" "ssh start = Fresh"
  by (simp_all add: start_def)

lemma after_connect_simps [simp]:
  "execs (trace after_connect) = []"
  "statuses (trace after_connect) = []"
  "printed Warn (trace after_connect) = []"
  "printed Report (trace after_connect) = []"
  "Close \<notin> set (trace after_connect)"
  "follow strict (True, True, True) (trace after_connect) = Some (True, True, True)"
  "calls after_connect = 0" "ssh after_connect = Connected"
  by (simp_all add: after_connect_def emit_def follow_append)

lemma except_handler_eq: "except_handler env e w = (handled env e, reported env e w)"
  by (simp add: except_handler_def handled_def reported_def print_value_def print_text_def)

lemma reported_simps [simp]:
  "execs (trace (reported env e w)) = execs (trace w)"
  "statuses (trace (reported env e w)) = statuses (trace w)"
  "printed Warn (trace (reported env e w)) = printed Warn (trace w)"
  "printed Report (trace (reported env e w)) = printed Report (trace w) @
     (if encodable env (message e) then [''Error: '' @ message e @ ''\<newline>''] else [])"
  "Close \<in> set (trace (reported env e w)) = (Close \<in> set (trace w))"
  "calls (reported env e w) = calls w" "ssh (reported env e w) = ssh w"
  by (simp_all add: reported_def)

lemma handled_simps [simp]: "exit_code (handled env e) = 1" "handled env e \<noteq> Returned"
  by (simp_all add: handled_def)

lemma main_on_unfold:
  "main_on cmds env =
     (case connect_raises env of
        Some e \<Rightarrow>
          Some (handled env e, ssh_close (reported env e (emit Connect (print_header start))))
      | None \<Rightarrow>
          (case for_commands env cmds after_connect of
             None \<Rightarrow> None
           | Some (Inl e, w1) \<Rightarrow> Some (handled env e, ssh_close (reported env e w1))
           | Some (Inr u, w1) \<Rightarrow> Some (Returned, ssh_close (print_footer w1))))"
  by (simp add: main_on_def try_body_def after_connect_def except_handler_eq
      split: option.splits sum.splits prod.splits)

lemma main_on_cases:
  assumes "main_on cmds env = Some (oc, w)"
  obtains (refused) e where "connect_raises env = Some e" "oc = handled env e"
      "w = ssh_close (reported env e (emit Connect (print_header start)))"
  | (aborted) e w1 where "connect_raises env = None"
      "for_commands env cmds after_connect = Some (Inl e, w1)" "oc = handled env e"
      "w = ssh_close (reported env e w1)"
  | (finished) w1 where "connect_raises env = None"
      "for_commands env cmds after_connect = Some (Inr (), w1)" "oc = Returned"
      "w = ssh_close (print_footer w1)"
  using assms unfolding main_on_unfold
  by (auto split: option.splits sum.splits prod.splits)

lemma prints_line_events:
  "prints (line_events env ls) =
     map (\<lambda>l. if encodable env l then (Stdout, l) else (StdoutLossy, ascii_replace l)) ls"
  by (induction ls) (simp_all add: line_event_def)

lemma stdout_prints_Nil [simp]: "stdout_prints [] = []"
  by (simp add: stdout_prints_def)

lemma stdout_prints_Cons [simp]:
  "stdout_prints (e # es) =
     (case e of Print s x \<Rightarrow> if s = Stdout \<or> s = StdoutLossy then [(s, x)] else [] | _ \<Rightarrow> []) @
     stdout_prints es"
  by (cases e) (simp_all add: stdout_prints_def)

lemma stdout_prints_append [simp]:
  "stdout_prints (xs @ ys) = stdout_prints xs @ stdout_prints ys"
  by (simp add: stdout_prints_def)


lemma stdout_prints_others [simp]:
  "stdout_prints (announce cmd t) = []" "stdout_prints (stderr_events env p) = []"
  by (simp_all add: announce_def stderr_events_def split: sum.splits)

lemma main_on_returns:
  assumes "connect_raises env = None"
    and "\<forall>j<length cmds. \<exists>ls s. runs env j (cmds ! j) 300 ls s"
  shows "\<exists>w. main_on cmds env = Some (Returned, w)"
proof -
  from assms(2) have "\<forall>j<length cmds. \<exists>ls s.
      runs env (calls after_connect + j) (cmds ! j) 300 ls s"
    by simp
  from for_commands_completes [OF this] assms(1) show ?thesis
    by (auto simp add: main_on_unfold)
qed

lemma main_on_aborts:
  assumes "connect_raises env = None" and "k < length cmds"
    and "\<forall>j<k. \<exists>ls s. runs env j (cmds ! j) 300 ls s"
    and "fails env k (cmds ! k) 300 ls e"
  shows "\<exists>w1. for_commands env cmds after_connect = Some (Inl e, w1) \<and>
     execs (trace w1) = take (if encodable env (cmds ! k) then Suc k else k) cmds \<and>
     length (statuses (trace w1)) = k \<and>
     main_on cmds env = Some (handled env e, ssh_close (reported env e w1))"
proof -
  from assms(3) have b: "\<forall>j<k. \<exists>ls s.
      runs env (calls after_connect + j) (cmds ! j) 300 ls s"
    by simp
  from assms(4) have c: "fails env (calls after_connect + k) (cmds ! k) 300 ls e"
    by simp
  from for_commands_raises [OF assms(2) b c] assms(1) show ?thesis
    by (auto simp add: main_on_unfold)
qed

lemma completes_silent: "completes silent [] 0"
  by (simp add: runs_def completes_def silent_def)

lemma follow_snoc:
  "follow strict s (tr @ [e]) =
     (case follow strict s tr of None \<Rightarrow> None | Some s' \<Rightarrow> step strict s' e)"
  by (simp add: follow_append split: option.splits)

lemma follow_snoc_neutral [simp]:
  "follow strict s (tr @ [Print src x]) = follow strict s tr"
  "follow strict s (tr @ [Connect]) = follow strict s tr"
  "follow strict s (tr @ [Close]) = follow strict s tr"
  by (auto simp add: follow_snoc split: option.splits)

lemma follow_print_text [simp]:
  "follow strict s (trace (print_text src x ending w)) = follow strict s (trace w)"
  by (simp only: print_text_simps follow_snoc_neutral)

lemma follow_reported [simp]:
  "follow strict s (trace (reported env e w)) = follow strict s (trace w)"
  by (simp only: reported_def emit_simps follow_snoc_neutral if_distrib [of trace]
      if_distrib [of "follow strict s"] if_cancel)

lemma follow_ssh_close [simp]:
  "follow strict s (trace (ssh_close w)) = follow strict s (trace w)"
  by (simp only: ssh_close_simps follow_snoc_neutral)

lemma follow_emit_Connect [simp]:
  "follow strict s (trace (emit Connect w)) = follow strict s (trace w)"
  by (simp only: emit_simps follow_snoc_neutral)

lemma follow_header [simp]: "follow strict s (trace (print_header w)) = follow strict s (trace w)"
  by (simp only: print_header_def follow_print_text)

lemma follow_footer [simp]: "follow strict s (trace (print_footer w)) = follow strict s (trace w)"
  by (simp only: print_footer_def follow_print_text)

lemma warnings_for_Nil [simp]: "warnings_for cs [] = []"
  by (cases cs) simp_all

subsection \<open>Two runs, evaluated\<close>

lemma scenario_run:
  "\<exists>w. main_on [''true'', ''false'', ''curl -s x''] scenario = Some (Returned, w) \<and>
     statuses (trace w) = [0, 1, 1] \<and>
     printed Warn (trace w) = [''\<newline>Warning: Command exited with status 1\<newline>'']"
proof -
  let ?E = scenario
  have c0: "runs ?E (calls w) ''true'' 300 [] 0" for w
    by (simp add: runs_def completes_def scenario_def calm_def silent_def)
  have c1: "runs ?E (calls w) ''false'' 300 [] 1" for w
    by (simp add: runs_def completes_def scenario_def calm_def silent_def)
  have c2: "runs ?E (calls w) ''curl -s x'' 300 [] 1" for w
    by (simp add: runs_def completes_def scenario_def calm_def silent_def)
  have "\<exists>w1. for_commands ?E [''true'', ''false'', ''curl -s x''] after_connect = Some (Inr (), w1) \<and>
     statuses (trace w1) = [0, 1, 1] \<and>
     printed Warn (trace w1) = [''\<newline>Warning: Command exited with status 1\<newline>'']"
    unfolding for_commands_step [OF c0] for_commands_step [OF c1] for_commands_step [OF c2]
    by (simp add: warning_events_def str_int_def digits.simps)
  moreover have "connect_raises ?E = None" by (simp add: scenario_def calm_def)
  ultimately show ?thesis by (auto simp add: main_on_unfold)
qed

lemma stalls_run:
  "\<exists>w. main_on [''a'', ''b'', ''c''] stalls = Some (SystemExit 1, w) \<and>
     execs (trace w) = [''a'', ''b''] \<and> follow True (True, True, True) (trace w) = None"
proof -
  let ?E = stalls
  let ?e = "Raised OtherException ''timed out''"
  have c0: "runs ?E (calls w) ''a'' 300 [] 0" for w
    by (simp add: runs_def completes_def stalls_def calm_def silent_def)
  have s0: "stderr_text (exec_command ?E k ''a'' 300) = Inl ?e" for k
    by (simp add: stalls_def calm_def silent_def)
  have r1: "fails ?E (calls w) ''b'' 300 [''building\<newline>''] ?e" for w
    by (simp add: fails_def raises_def stalls_def calm_def silent_def)
  have x1: "exec_raises (exec_command ?E k ''b'' 300) = None" for k
    by (simp add: stalls_def calm_def silent_def)
  have enc: "encodable ?E ''b''" by simp
  have f0: "follow True (True, True, True)
      (completed_events ?E ''a'' 300 (exec_command ?E k ''a'' 300) [] 0) =
      Some (True, False, True)" for k
    by (simp add: completed_events_def announce_def follow_append follow_stderr_events s0)
  have f1: "follow True (True, False, True)
      (raised_events ?E ''b'' 300 (exec_command ?E k ''b'' 300) [''building\<newline>''] ?e) = None" for k
    by (simp add: raised_events_def announce_def)
  have "\<exists>w1. for_commands ?E [''a'', ''b'', ''c''] after_connect = Some (Inl ?e, w1) \<and>
     execs (trace w1) = [''a'', ''b''] \<and> follow True (True, True, True) (trace w1) = None"
    unfolding for_commands_step [OF c0] for_commands_abort [OF r1]
    by (simp add: follow_append f0 f1 warning_events_def)
  then obtain w1 where f: "for_commands ?E [''a'', ''b'', ''c''] after_connect = Some (Inl ?e, w1)"
    and x: "execs (trace w1) = [''a'', ''b'']"
    and y: "follow True (True, True, True) (trace w1) = None"
    by blast
  have n: "connect_raises ?E = None" by (simp add: stalls_def calm_def)
  have h: "handled ?E ?e = SystemExit 1" by (simp add: handled_def)
  let ?w = "ssh_close (reported ?E ?e w1)"
  have m: "main_on [''a'', ''b'', ''c''] ?E = Some (SystemExit 1, ?w)"
    unfolding main_on_unfold n f by (simp add: h)
  have "follow True (True, True, True) (trace ?w) = None"
    by (simp only: follow_ssh_close follow_reported y)
  moreover have "execs (trace ?w) = [''a'', ''b'']" using x by simp
  ultimately show ?thesis using m by blast
qed

subsection \<open>The script's own list of commands, and its decimal numbers\<close>

text \<open>
  Of the nine commands of the script only the last, the health check, contains
  \<^verbatim>\<open>curl\<close>. \<open>digits\<close> writes a number as its decimal numeral, so \<^verbatim>\<open>str\<close> of an exit
  status is the numeral of that status and the warning of the loop is the warning a
  reader expects.
\<close>

lemma commands_exempt:
  "map (str_contains ''curl'') commands =
     [False, False, False, False, False, False, False, False, True]"
  by (simp add: commands_def)

lemma below_ten: "n < 10 \<Longrightarrow> n \<in> {0, 1, 2, 3, 4, 5, 6, 7, 8, 9 :: nat}"
  by auto

lemma digit_char: "n < 10 \<Longrightarrow> of_char (''0123456789'' ! n) = 48 + n"
  using below_ten [of n] by auto

lemma digit_member: "n < 10 \<Longrightarrow> ''0123456789'' ! n \<in> set ''0123456789''"
  by (rule nth_mem) simp

lemma digit_zero: "n < 10 \<Longrightarrow> n \<noteq> 0 \<Longrightarrow> ''0123456789'' ! n \<noteq> CHR ''0''"
  using below_ten [of n] by auto

lemma digit_ascii: "n < 10 \<Longrightarrow> \<not> digit7 (''0123456789'' ! n)"
  using below_ten [of n] by auto

lemma decimal_digits: "decimal (digits n) = n"
proof (induction n rule: digits.induct)
  case (1 n)
  show ?case
  proof (cases "n < 10")
    case True
    then show ?thesis by (subst digits.simps) (simp add: decimal_def digit_char)
  next
    case False
    with 1 have "decimal (digits (n div 10)) = n div 10" by simp
    moreover have "n mod 10 < 10" by simp
    ultimately show ?thesis using False
      by (subst digits.simps) (simp add: decimal_def digit_char)
  qed
qed

lemma digits_not_Nil: "digits n \<noteq> []"
  by (subst digits.simps) simp

lemma digits_all: "list_all (\<lambda>c. c \<in> set ''0123456789'') (digits n)"
proof (induction n rule: digits.induct)
  case (1 n)
  have m: "''0123456789'' ! (n mod 10) \<in> set ''0123456789''" by (rule digit_member) simp
  show ?case
  proof (cases "n < 10")
    case True
    from digit_member [OF True] show ?thesis by (subst digits.simps) (simp add: True)
  next
    case False
    with 1 have "list_all (\<lambda>c. c \<in> set ''0123456789'') (digits (n div 10))" by simp
    with m False show ?thesis by (subst digits.simps) simp
  qed
qed

lemma digits_hd: "n \<noteq> 0 \<Longrightarrow> hd (digits n) \<noteq> CHR ''0''"
proof (induction n rule: digits.induct)
  case (1 n)
  show ?case
  proof (cases "n < 10")
    case True
    from digit_zero [OF True "1.prems"] show ?thesis by (subst digits.simps) (simp add: True)
  next
    case False
    then have "n div 10 \<noteq> 0" by simp
    with 1 False have "hd (digits (n div 10)) \<noteq> CHR ''0''" by simp
    with False show ?thesis by (subst digits.simps) (simp add: digits_not_Nil)
  qed
qed

lemma digits_numeral: "is_numeral (digits n)"
proof (cases "n = 0")
  case True
  then show ?thesis by (simp add: is_numeral_def digits.simps)
next
  case False
  from digits_hd [OF False] digits_all [of n] show ?thesis
    by (simp add: is_numeral_def digits_not_Nil)
qed

lemma numeral_of_str_int: "numeral_of i (str_int i)"
  by (simp add: numeral_of_def str_int_def digits_numeral decimal_digits)

lemma is_warning_line: "is_warning status (warning_line status)"
proof -
  have "str_int status \<noteq> []" by (simp add: str_int_def digits_not_Nil)
  then show ?thesis
    by (simp add: is_warning_def warning_line_def numeral_of_str_int butlast_append)
qed

lemma warnings_for_warned: "list_all2 is_warning (warned cmds sts) (warnings_for cmds sts)"
proof (induction cmds sts rule: warned.induct)
  case (1 c cs s ss)
  then show ?case by (simp add: is_warning_line str_contains_sublist)
qed simp_all

subsection \<open>The texts the script prints itself\<close>

text \<open>
  The banner, the footer and the warnings are ASCII in every run, so printing them
  cannot raise.
\<close>

lemma encodable_replicate: "\<not> digit7 c \<Longrightarrow> encodable env (replicate n c)"
  by (induction n) (simp_all add: encodable_def)

lemma digits_encodable: "encodable env (digits n)"
proof (induction n rule: digits.induct)
  case (1 n)
  have m: "\<not> digit7 (''0123456789'' ! (n mod 10))" by (rule digit_ascii) simp
  show ?case
  proof (cases "n < 10")
    case True
    from digit_ascii [OF True] show ?thesis by (subst digits.simps) (simp add: True)
  next
    case False
    with 1 have "encodable env (digits (n div 10))" by simp
    with m False show ?thesis by (subst digits.simps) simp
  qed
qed

lemma warning_encodable:
  "encodable env (''\<newline>Warning: Command exited with status '' @ str_int status)"
  by (simp add: str_int_def digits_encodable)

lemma header_encodable: "\<forall>s\<in>set (printed Banner (trace after_connect)). encodable env s"
  by (simp add: after_connect_def print_header_def HOST_def emit_def encodable_replicate)

lemma footer_encodable: "\<forall>s\<in>set (printed Banner (trace (print_footer start))). encodable env s"
  by (simp add: print_footer_def encodable_replicate)


lemma line_breaks_append [simp]: "line_breaks (a @ b) = line_breaks a + line_breaks b"
  by (simp add: line_breaks_def)

lemma line_breaks_Cons [simp]:
  "line_breaks (c # s) = (if c = CHR 0x0A then 1 else 0) + line_breaks s"
  "line_breaks [] = 0"
  by (simp_all add: line_breaks_def)

section \<open>The claims of the specification\<close>

text \<open>
  Claim C1, as amended. In every run that ends, the commands passed to
  \<^verbatim>\<open>exec_command\<close> are an initial part of the list, in list order; they are the whole
  list when the run completes, which it does when connecting succeeds and every command
  of the list runs (it can be announced, and its invocation returns without raising). No
  command is started before the output stream of the one before it has been read to its
  end, its error stream has been read (or the read has raised, which is suppressed) and
  its exit status has been obtained.
\<close>

theorem run_order:
  assumes "main_on cmds env = Some (oc, w)"
  shows "prefix (execs (trace w)) cmds \<and> (oc = Returned \<longrightarrow> execs (trace w) = cmds) \<and>
    (connect_raises env = None \<and>
       (\<forall>j<length cmds. \<exists>ls s. runs env j (cmds ! j) 300 ls s) \<longrightarrow>
       oc = Returned) \<and>
    drained_before_next False (trace w)"
proof (intro conjI impI)
  assume "connect_raises env = None \<and>
       (\<forall>j<length cmds. \<exists>ls s. runs env j (cmds ! j) 300 ls s)"
  then obtain w' where "main_on cmds env = Some (Returned, w')"
    using main_on_returns by blast
  with assms show "oc = Returned" by simp
next
  from assms show "prefix (execs (trace w)) cmds"
  proof (cases rule: main_on_cases)
    case (refused e)
    then show ?thesis by simp
  next
    case (aborted e w1)
    from for_commands_execs [OF aborted(2)] aborted(4) show ?thesis
      by (auto simp add: take_is_prefix)
  next
    case (finished w1)
    from for_commands_execs [OF finished(2)] finished(4) show ?thesis by auto
  qed
next
  assume "oc = Returned"
  with assms show "execs (trace w) = cmds"
  proof (cases rule: main_on_cases)
    case (finished w1)
    from for_commands_execs [OF finished(2)] finished(4) show ?thesis by auto
  qed simp_all
next
  from assms show "drained_before_next False (trace w)"
  proof (cases rule: main_on_cases)
    case (refused e)
    have "follow False (True, True, True) (trace w) = Some (True, True, True)"
      by (simp only: refused(3) follow_ssh_close follow_reported follow_emit_Connect
          follow_header start_simps follow.simps)
    then show ?thesis by (simp add: drained_before_next_def)
  next
    case (aborted e w1)
    have "follow False (True, True, True) (trace w) = follow False (True, True, True) (trace w1)"
      by (simp only: aborted(4) follow_ssh_close follow_reported)
    with for_commands_follow [OF aborted(2)] show ?thesis
      by (auto simp add: drained_before_next_def)
  next
    case (finished w1)
    have "follow False (True, True, True) (trace w) = follow False (True, True, True) (trace w1)"
      by (simp only: finished(4) follow_ssh_close follow_footer)
    with for_commands_follow [OF finished(2)] show ?thesis
      by (auto simp add: drained_before_next_def)
  qed
qed

theorem run_order_witness:
  "\<exists>w. main_on [''true'', ''false'', ''curl -s x''] scenario = Some (Returned, w) \<and>
     execs (trace w) = [''true'', ''false'', ''curl -s x''] \<and>
     drained_before_next False (trace w)"
proof -
  from scenario_run obtain w where
    h: "main_on [''true'', ''false'', ''curl -s x''] scenario = Some (Returned, w)" by blast
  from run_order [OF h] h show ?thesis by auto
qed

text \<open>
  As the specification words it (exactly as many calls as there are commands, in every
  run, and the error stream fully drained before the next command), the property fails.
  In the run below the error stream of \<^verbatim>\<open>a\<close> cannot be read, which is suppressed, and
  the output of \<^verbatim>\<open>b\<close> times out: \<^verbatim>\<open>b\<close> is started although the error stream of
  \<^verbatim>\<open>a\<close> was never drained, and \<^verbatim>\<open>c\<close> is never executed.
\<close>

theorem run_order_as_claimed_fails:
  "map_option (execs \<circ> trace \<circ> snd) (main_on [''a'', ''b'', ''c''] stalls) = Some [''a'', ''b''] \<and>
   map_option (drained_before_next True \<circ> trace \<circ> snd) (main_on [''a'', ''b'', ''c''] stalls) =
     Some False"
  using stalls_run by (auto simp add: drained_before_next_def)

text \<open>
  Claim C2. One round of the loop, for a command that returned an exit status: the loop
  goes on with the rest of the list, whatever the status, and between the two it writes
  the warning for that status (a line break, \<^verbatim>\<open>Warning: Command exited with status\<close>,
  the status as a decimal numeral) if the status is not zero and the command does not
  contain \<^verbatim>\<open>curl\<close>, and nothing otherwise. So in every run that ends the warnings
  written are those of the exit statuses the specification wants a warning for, one
  each, in order; and when every command can be announced, the commands executed are one
  more than the exit statuses returned (or the whole list): after a status, whatever it
  is, the next command is started.
\<close>

theorem warnings_by_policy:
  "(run_command env cmd 300 w0 = Some (Inr status, w1) \<longrightarrow>
      (\<exists>w2. for_commands env (cmd # rest) w0 = for_commands env rest w2 \<and>
         calls w2 = calls w1 \<and> ssh w2 = ssh w1 \<and>
         (if status \<noteq> 0 \<and> \<not> sublist ''curl'' cmd
          then \<exists>s. is_warning status s \<and> trace w2 = trace w1 @ [Print Warn s]
          else trace w2 = trace w1))) \<and>
   (main_on cmds env = Some (oc, w) \<longrightarrow>
      list_all2 is_warning (warned cmds (statuses (trace w))) (printed Warn (trace w)) \<and>
      length (statuses (trace w)) \<le> length cmds \<and>
      (connect_raises env = None \<and> (\<forall>c\<in>set cmds. encodable env c) \<longrightarrow>
         execs (trace w) = take (Suc (length (statuses (trace w)))) cmds))"
proof (intro conjI impI)
  assume rc: "run_command env cmd 300 w0 = Some (Inr status, w1)"
  let ?warn = "status \<noteq> 0 \<and> \<not> sublist ''curl'' cmd"
  let ?w2 = "if ?warn
    then print_text Warn (''\<newline>Warning: Command exited with status '' @ str_int status) ''\<newline>'' w1
    else w1"
  have 1: "for_commands env (cmd # rest) w0 = for_commands env rest ?w2"
    using rc by (simp add: str_contains_sublist)
  have 2: "calls ?w2 = calls w1" "ssh ?w2 = ssh w1" by simp_all
  have 3: "if ?warn then \<exists>s. is_warning status s \<and> trace ?w2 = trace w1 @ [Print Warn s]
     else trace ?w2 = trace w1"
  proof (cases ?warn)
    case True
    have "is_warning status (''\<newline>Warning: Command exited with status '' @ str_int status @ ''\<newline>'')"
      using is_warning_line [of status] unfolding warning_line_def .
    with True show ?thesis by auto
  next
    case False
    then show ?thesis by auto
  qed
  from 1 2 3 show "\<exists>w2. for_commands env (cmd # rest) w0 = for_commands env rest w2 \<and>
         calls w2 = calls w1 \<and> ssh w2 = ssh w1 \<and>
         (if ?warn then \<exists>s. is_warning status s \<and> trace w2 = trace w1 @ [Print Warn s]
          else trace w2 = trace w1)"
    by blast
next
  assume m: "main_on cmds env = Some (oc, w)"
  have *: "printed Warn (trace w) = warnings_for cmds (statuses (trace w)) \<and>
      length (statuses (trace w)) \<le> length cmds \<and>
      (connect_raises env = None \<and> (\<forall>c\<in>set cmds. encodable env c) \<longrightarrow>
         execs (trace w) = take (Suc (length (statuses (trace w)))) cmds)"
    using m
  proof (cases rule: main_on_cases)
    case (refused e)
    then show ?thesis by simp
  next
    case (aborted e w1)
    from for_commands_warnings [OF aborted(2)] aborted(1,4) show ?thesis by auto
  next
    case (finished w1)
    from for_commands_warnings [OF finished(2)] finished(1,4) show ?thesis by auto
  qed
  from * warnings_for_warned [of cmds "statuses (trace w)"]
  show "list_all2 is_warning (warned cmds (statuses (trace w))) (printed Warn (trace w))"
    by simp
  from * show "length (statuses (trace w)) \<le> length cmds" by simp
  assume "connect_raises env = None \<and> (\<forall>c\<in>set cmds. encodable env c)"
  with * show "execs (trace w) = take (Suc (length (statuses (trace w)))) cmds" by simp
qed

theorem warnings_by_policy_witness:
  "\<exists>w. main_on [''true'', ''false'', ''curl -s x''] scenario = Some (Returned, w) \<and>
     statuses (trace w) = [0, 1, 1] \<and>
     warned [''true'', ''false'', ''curl -s x''] [0, 1, 1] = [1] \<and>
     printed Warn (trace w) = [''\<newline>Warning: Command exited with status 1\<newline>''] \<and>
     list_all2 is_warning [1] (printed Warn (trace w)) \<and>
     execs (trace w) = [''true'', ''false'', ''curl -s x'']"
proof -
  from scenario_run obtain w where
    h: "main_on [''true'', ''false'', ''curl -s x''] scenario = Some (Returned, w)"
    and s: "statuses (trace w) = [0, 1, 1]"
    and p: "printed Warn (trace w) = [''\<newline>Warning: Command exited with status 1\<newline>'']"
    by blast
  have n: "connect_raises scenario = None" "\<forall>c\<in>set [''true'', ''false'', ''curl -s x'']. encodable scenario c"
    by (simp_all add: scenario_def calm_def)
  have v: "warned [''true'', ''false'', ''curl -s x''] [0, 1, 1] = [1]"
    unfolding warned.simps str_contains_sublist [symmetric] by simp
  from warnings_by_policy [of scenario _ _ _ _ _ "[''true'', ''false'', ''curl -s x'']" Returned w]
    h s n v p
  show ?thesis by simp
qed

text \<open>
  Claim C3, as amended. If \<^verbatim>\<open>connect\<close> raises, \<^verbatim>\<open>exec_command\<close> is never called,
  the session is closed and the process exits with code 1. When the output encoding can
  represent the message of the exception, the handler writes \<^verbatim>\<open>Error: <str(e)>\<close> with
  one print, the only output after the header, and leaves by \<^verbatim>\<open>sys.exit(1)\<close>; what is
  printed has one line break more than the message, so it is one line exactly when the
  message has no line break.
\<close>

theorem connect_failure:
  assumes "connect_raises env = Some e"
  shows "(\<exists>oc w. main_on cmds env = Some (oc, w) \<and> exit_code oc = 1 \<and>
           execs (trace w) = [] \<and> last (trace w) = Close \<and>
           (encodable env (message e) \<longrightarrow>
              oc = SystemExit 1 \<and>
              trace w = trace (print_header start) @
                [Connect, Print Report (''Error: '' @ message e @ ''\<newline>''), Close])) \<and>
         process_exit_code cmds env = Some 1 \<and>
         line_breaks (''Error: '' @ message e @ ''\<newline>'') = Suc (line_breaks (message e))"
  using assms
  by (simp add: main_on_unfold process_exit_code_def handled_def reported_def)

theorem connect_failure_witness:
  "connect_raises refusing = Some (Raised OtherException ''timed out'') \<and>
   (\<exists>w. main_on [''true''] refusing = Some (SystemExit 1, w) \<and> execs (trace w) = [] \<and>
      printed Report (trace w) = [''Error: timed out\<newline>'']) \<and>
   process_exit_code [''true''] refusing = Some 1 \<and>
   line_breaks ''Error: timed out\<newline>'' = 1"
proof -
  have h: "connect_raises refusing = Some (Raised OtherException ''timed out'')"
    by (simp add: refusing_def)
  have e: "encodable refusing ''timed out''" by simp
  from connect_failure [OF h, of "[''true'']"] h e show ?thesis by auto
qed

text \<open>
  As the specification words it (a one-line error message is printed whenever
  \<^verbatim>\<open>connect\<close> raises), the property fails. The handler prints the message of the
  exception as it is: the message of the first run below has a line break in it, and the
  report is two lines. The message of the second has a character that the output
  encoding (ASCII) cannot represent: the print of the handler raises, and no report is
  written at all.
\<close>

theorem connect_failure_as_claimed_fails:
  "map_option (map line_breaks \<circ> printed Report \<circ> trace \<circ> snd) (main_on [''true''] verbose) =
     Some [2] \<and>
   map_option (printed Report \<circ> trace \<circ> snd) (main_on [''true''] garbled) = Some []"
  by (simp add: main_on_unfold verbose_def garbled_def calm_def)



text \<open>
  Claim C5, as amended. When command \<open>k\<close> has been announced and its invocation raises,
  from \<^verbatim>\<open>exec_command\<close> or from \<^verbatim>\<open>readline\<close> on the output stream (the channel's
  timeout), the exception leaves \<^verbatim>\<open>run_command\<close>, no later command is executed, the
  session is closed and the process exits with code 1; the error is reported when its
  message can be printed.
\<close>

theorem command_exception_aborts:
  assumes "connect_raises env = None" and "k < length cmds"
    and "\<forall>j<k. \<exists>ls s. runs env j (cmds ! j) 300 ls s"
    and "encodable env (cmds ! k)"
    and "raises (exec_command env k (cmds ! k) 300) ls e"
  shows "(\<exists>oc w. main_on cmds env = Some (oc, w) \<and> exit_code oc = 1 \<and>
            execs (trace w) = take (Suc k) cmds \<and>
            length (statuses (trace w)) = k \<and> last (trace w) = Close \<and>
            (encodable env (message e) \<longrightarrow>
               oc = SystemExit 1 \<and>
               printed Report (trace w) = [''Error: '' @ message e @ ''\<newline>''])) \<and>
         process_exit_code cmds env = Some 1 \<and>
         (calls w0 = k \<longrightarrow> (\<exists>w1. run_command env (cmds ! k) 300 w0 = Some (Inl e, w1)))"
proof (intro conjI impI)
  from assms(4,5) have fl: "fails env k (cmds ! k) 300 ls e" by (simp add: fails_def)
  from main_on_aborts [OF assms(1-3) fl] assms(4) obtain w1 where
    f: "for_commands env cmds after_connect = Some (Inl e, w1)" and
    x: "execs (trace w1) = take (Suc k) cmds" "length (statuses (trace w1)) = k" and
    m: "main_on cmds env = Some (handled env e, ssh_close (reported env e w1))"
    by auto
  from for_commands_Close [OF f] have rep: "printed Report (trace w1) = []" by simp
  show "process_exit_code cmds env = Some 1" using m by (simp add: process_exit_code_def)
  let ?w = "ssh_close (reported env e w1)"
  have "main_on cmds env = Some (handled env e, ?w) \<and> exit_code (handled env e) = 1 \<and>
            execs (trace ?w) = take (Suc k) cmds \<and>
            length (statuses (trace ?w)) = k \<and> last (trace ?w) = Close \<and>
            (encodable env (message e) \<longrightarrow>
               handled env e = SystemExit 1 \<and>
               printed Report (trace ?w) = [''Error: '' @ message e @ ''\<newline>''])"
    using x rep m by (simp add: handled_def)
  then show "\<exists>oc w. main_on cmds env = Some (oc, w) \<and> exit_code oc = 1 \<and>
            execs (trace w) = take (Suc k) cmds \<and>
            length (statuses (trace w)) = k \<and> last (trace w) = Close \<and>
            (encodable env (message e) \<longrightarrow>
               oc = SystemExit 1 \<and>
               printed Report (trace w) = [''Error: '' @ message e @ ''\<newline>''])"
    by blast
next
  assume "calls w0 = k"
  with assms(4,5) have "fails env (calls w0) (cmds ! k) 300 ls e" by (simp add: fails_def)
  from run_command_raises [OF this] show "\<exists>w1. run_command env (cmds ! k) 300 w0 = Some (Inl e, w1)"
    by blast
qed

theorem command_exception_aborts_witness:
  "connect_raises stalls = None \<and> 1 < length [''a'', ''b'', ''c''] \<and>
   runs stalls 0 ''a'' 300 [] 0 \<and> encodable stalls ''b'' \<and>
   raises (exec_command stalls 1 ''b'' 300) [''building\<newline>''] (Raised OtherException ''timed out'') \<and>
   (\<exists>w. main_on [''a'', ''b'', ''c''] stalls = Some (SystemExit 1, w) \<and>
      execs (trace w) = [''a'', ''b''] \<and>
      printed Report (trace w) = [''Error: timed out\<newline>''] \<and> last (trace w) = Close) \<and>
   process_exit_code [''a'', ''b'', ''c''] stalls = Some 1"
proof -
  have n: "connect_raises stalls = None" by (simp add: stalls_def calm_def)
  have k: "1 < length [''a'', ''b'', ''c'']" by simp
  have a: "runs stalls 0 ''a'' 300 [] 0"
    by (simp add: runs_def completes_def stalls_def calm_def silent_def)
  have c: "encodable stalls ([''a'', ''b'', ''c''] ! 1)" by simp
  have b: "raises (exec_command stalls 1 ([''a'', ''b'', ''c''] ! 1) 300) [''building\<newline>'']
      (Raised OtherException ''timed out'')"
    by (simp add: raises_def stalls_def calm_def silent_def)
  have before: "\<forall>j<1. \<exists>ls s. runs stalls j ([''a'', ''b'', ''c''] ! j) 300 ls s"
    using a by auto
  have e: "encodable stalls (message (Raised OtherException ''timed out''))" by simp
  from command_exception_aborts [OF n k before c b] n a b c e show ?thesis by auto
qed

text \<open>
  As the specification words it (a command that does not finish within its timeout
  raises out of the step and aborts the run), the property fails. The timeout of the
  channel also strikes in the read of the error stream, and there every exception is
  suppressed: in the run below the read of the error stream of \<^verbatim>\<open>make\<close> times out,
  \<^verbatim>\<open>run_command\<close> returns the exit status all the same, the next command is executed
  and the process exits with code 0.
\<close>

theorem command_exception_as_claimed_fails:
  "stderr_text (exec_command stderr_broken 0 ''make'' 300) =
     Inl (Raised OtherException ''timed out'') \<and>
   map_option fst (run_command stderr_broken ''make'' 300 start) = Some (Inr 3) \<and>
   map_option (execs \<circ> trace \<circ> snd) (main_on [''make'', ''true''] stderr_broken) =
     Some [''make'', ''true''] \<and>
   process_exit_code [''make'', ''true''] stderr_broken = Some 0"
proof -
  have c: "runs stderr_broken k ''make'' 300 [] 3" "runs stderr_broken k ''true'' 300 [] 3" for k
    by (simp_all add: runs_def completes_def stderr_broken_def calm_def silent_def)
  have s: "stderr_text (exec_command stderr_broken 0 ''make'' 300) =
     Inl (Raised OtherException ''timed out'')"
    by (simp add: stderr_broken_def calm_def silent_def)
  have n: "connect_raises stderr_broken = None" by (simp add: stderr_broken_def calm_def)
  have r: "map_option fst (run_command stderr_broken ''make'' 300 start) = Some (Inr 3)"
    by (simp add: run_command_completes [OF c(1)])
  have "\<exists>w1. for_commands stderr_broken [''make'', ''true''] after_connect = Some (Inr (), w1) \<and>
      execs (trace w1) = [''make'', ''true'']"
    unfolding for_commands_step [OF c(1)] for_commands_step [OF c(2)] by simp
  then have "\<exists>w. main_on [''make'', ''true''] stderr_broken = Some (Returned, w) \<and>
      execs (trace w) = [''make'', ''true'']"
    using n by (auto simp add: main_on_unfold)
  with s r show ?thesis by (auto simp add: process_exit_code_def)
qed



text \<open>
  Claim C7. However \<^verbatim>\<open>main\<close> ends, \<^verbatim>\<open>close\<close> is called exactly once, as the last
  thing the script does, and the session is not left connected; \<open>close\<close> (modelled from
  the specification) is idempotent and safe on a session that never connected.
\<close>

theorem close_on_every_path:
  assumes "main_on cmds env = Some (oc, w)"
  shows "(\<exists>tr. trace w = tr @ [Close] \<and> Close \<notin> set tr) \<and> ssh w \<noteq> Connected \<and>
    close (close s) = close s \<and> close s \<noteq> Connected"
proof (intro conjI)
  show "close (close s) = close s" "close s \<noteq> Connected" by (cases s; simp)+
  have cl: "close x \<noteq> Connected" for x by (cases x) simp_all
  from assms show "\<exists>tr. trace w = tr @ [Close] \<and> Close \<notin> set tr"
  proof (cases rule: main_on_cases)
    case (refused e)
    then show ?thesis by simp
  next
    case (aborted e w1)
    from for_commands_Close [OF aborted(2)] aborted(4) show ?thesis by simp
  next
    case (finished w1)
    from for_commands_Close [OF finished(2)] finished(4) show ?thesis by simp
  qed
  from assms show "ssh w \<noteq> Connected"
    by (cases rule: main_on_cases) (simp_all add: cl)
qed

theorem close_on_every_path_witness:
  "\<exists>w. main_on [''true''] refusing = Some (SystemExit 1, w) \<and>
     (\<exists>tr. trace w = tr @ [Close] \<and> Close \<notin> set tr) \<and> ssh w \<noteq> Connected \<and>
     close (close Fresh) = close Fresh"
proof -
  have "connect_raises refusing = Some (Raised OtherException ''timed out'')"
    by (simp add: refusing_def)
  then obtain w where h: "main_on [''true''] refusing = Some (SystemExit 1, w)"
    by (simp add: main_on_unfold handled_def)
  from close_on_every_path [OF h, of Fresh] h show ?thesis by auto
qed

text \<open>
  Claim C8, as amended. A command that can be announced, with no output line, an empty
  error stream and exit status 0, causes exactly one print, its announcement, and the
  loop goes on to the next command with no warning. The announcement is a line break,
  \<^verbatim>\<open>>>>\<close> and the command, and a line break: an empty line before the line of the
  announcement, two line breaks more than the command has.
\<close>

theorem silent_command_only_announced:
  assumes "encodable env cmd"
    and "exec_raises (exec_command env (calls w) cmd 300) = None"
    and "readline (exec_command env (calls w) cmd 300) 0 = Inr []"
    and "stderr_text (exec_command env (calls w) cmd 300) = Inr []"
    and "exit_status (exec_command env (calls w) cmd 300) = Some 0"
  shows "(\<exists>w'. run_command env cmd 300 w = Some (Inr 0, w') \<and>
           prints (trace w') = prints (trace w) @ [(Announce, ''\<newline>>>> '' @ cmd @ ''\<newline>'')] \<and>
           for_commands env (cmd # rest) w = for_commands env rest w') \<and>
         line_breaks (''\<newline>>>> '' @ cmd @ ''\<newline>'') = 2 + line_breaks cmd"
proof -
  from assms have c: "runs env (calls w) cmd 300 [] 0"
    by (simp add: runs_def completes_def)
  from run_command_completes [OF c] assms(4) show ?thesis
    by (simp add: completed_events_def announce_def stderr_events_def)
qed

theorem silent_command_only_announced_witness:
  "encodable calm ''true'' \<and>
   exec_raises (exec_command calm (calls start) ''true'' 300) = None \<and>
   readline (exec_command calm (calls start) ''true'' 300) 0 = Inr [] \<and>
   stderr_text (exec_command calm (calls start) ''true'' 300) = Inr [] \<and>
   exit_status (exec_command calm (calls start) ''true'' 300) = Some 0 \<and>
   (\<exists>w'. run_command calm ''true'' 300 start = Some (Inr 0, w') \<and>
      prints (trace w') = [(Announce, ''\<newline>>>> true\<newline>'')] \<and>
      for_commands calm [''true''] start = Some (Inr (), w'))"
proof -
  have h: "encodable calm ''true''"
    "exec_raises (exec_command calm (calls start) ''true'' 300) = None"
    "readline (exec_command calm (calls start) ''true'' 300) 0 = Inr []"
    "stderr_text (exec_command calm (calls start) ''true'' 300) = Inr []"
    "exit_status (exec_command calm (calls start) ''true'' 300) = Some 0"
    by (simp_all add: calm_def silent_def)
  from silent_command_only_announced [OF h, of "[]"] h show ?thesis by auto
qed

text \<open>
  As the specification words it (exactly one line on the progress channel, the
  announcement line), the property fails: what the one print of such a command writes
  has two line breaks, an empty line and then the line of the announcement.
\<close>

theorem silent_command_as_claimed_fails:
  "map_option (map (\<lambda>p. (fst p, line_breaks (snd p))) \<circ> prints \<circ> trace \<circ> snd)
     (run_command calm ''true'' 300 start) = Some [(Announce, 2)]"
proof -
  have c: "runs calm (calls start) ''true'' 300 [] 0"
    by (simp add: runs_def completes_def calm_def silent_def)
  have s: "stderr_text (exec_command calm k ''true'' 300) = Inr []" for k
    by (simp add: calm_def silent_def)
  show ?thesis
    unfolding run_command_completes [OF c]
    by (simp add: completed_events_def announce_def stderr_events_def s)
qed

text \<open>
  Claim C9. Whether a non-zero exit status is reported depends only on whether the
  command contains the string \<^verbatim>\<open>curl\<close> somewhere: with it there is never a warning,
  without it a non-zero status always gives the warning that carries the status.
\<close>

theorem curl_exemption:
  assumes "run_command env cmd 300 w = Some (Inr status, w1)"
  shows "(sublist ''curl'' cmd \<longrightarrow> for_commands env (cmd # rest) w = for_commands env rest w1) \<and>
    (\<not> sublist ''curl'' cmd \<and> status \<noteq> 0 \<longrightarrow>
       for_commands env (cmd # rest) w =
         for_commands env rest
           (emit (Print Warn (''\<newline>Warning: Command exited with status '' @ str_int status @ ''\<newline>'')) w1)) \<and>
    (status = 0 \<longrightarrow> for_commands env (cmd # rest) w = for_commands env rest w1)"
  using assms by (simp add: str_contains_sublist print_text_def)

theorem curl_exemption_witness:
  "\<exists>w1. run_command failing ''apt-get install -y curl'' 300 start = Some (Inr 100, w1) \<and>
     sublist ''curl'' ''apt-get install -y curl'' \<and>
     for_commands failing [''apt-get install -y curl''] start = Some (Inr (), w1) \<and>
     printed Warn (trace w1) = []"
proof -
  have c: "runs failing (calls start) ''apt-get install -y curl'' 300 [] 100"
    by (simp add: runs_def completes_def failing_def silent_def calm_def)
  have s: "sublist ''curl'' ''apt-get install -y curl''"
    unfolding str_contains_sublist [symmetric] by simp
  from run_command_completes [OF c] obtain w1 where
    h: "run_command failing ''apt-get install -y curl'' 300 start = Some (Inr 100, w1)"
    and p: "printed Warn (trace w1) = []"
    by simp
  from curl_exemption [OF h, of "[]"] s h p show ?thesis by auto
qed

text \<open>
  Claim C10. When reading the error stream of a command that runs raises, the exception
  is dropped: no \<^verbatim>\<open>STDERR:\<close> block is printed, and \<^verbatim>\<open>run_command\<close> still returns
  the exit status.
\<close>

theorem stderr_exception_suppressed:
  assumes "runs env (calls w) cmd t ls s"
    and "stderr_text (exec_command env (calls w) cmd t) = Inl e"
  shows "(\<exists>w'. run_command env cmd t w = Some (Inr s, w') \<and>
           printed Stderr (trace w') = printed Stderr (trace w) \<and>
           StderrRead (Inl e) \<in> set (trace w')) \<and>
         check_stderr env (exec_command env (calls w) cmd t) w0 = emit (StderrRead (Inl e)) w0"
  using run_command_completes [OF assms(1)] assms(2)
  by (simp add: completed_events_def stderr_events_def check_stderr_eq emit_advance)

theorem stderr_exception_suppressed_witness:
  "runs stderr_broken (calls start) ''make'' 300 [] 3 \<and>
   stderr_text (exec_command stderr_broken (calls start) ''make'' 300) =
     Inl (Raised OtherException ''timed out'') \<and>
   (\<exists>w'. run_command stderr_broken ''make'' 300 start = Some (Inr 3, w') \<and>
      printed Stderr (trace w') = [])"
proof -
  have h: "runs stderr_broken (calls start) ''make'' 300 [] 3"
    "stderr_text (exec_command stderr_broken (calls start) ''make'' 300) =
      Inl (Raised OtherException ''timed out'')"
    by (simp_all add: runs_def completes_def stderr_broken_def silent_def calm_def)
  from stderr_exception_suppressed [OF h] h show ?thesis by auto
qed

end
